theory Spec2Isabelle
  imports Complex_Main "HOL-Library.Multiset"
begin

section \<open>Values, errors and generators\<close>

text \<open>
  The exceptions the batching pipeline of \<^verbatim>\<open>pytext/data/data.py\<close> can meet:
  a missing dictionary key, a division by zero, and whatever an external field
  converter (tensorizer) raises, identified by a number.
\<close>

datatype error = KeyError string | ZeroDivisionError | TensorizerError nat

text \<open>
  A Python iterator over finitely many items, as the sequence of what successive
  \<^verbatim>\<open>next\<close> calls do: yield an item, stop (StopIteration) or raise.  Nothing of a
  generator runs before it is pulled, so an error sits in the stream at the
  position where the pull that meets it happens.
\<close>

datatype 'a gen = Stop | Raise error | Yield 'a "'a gen"

primrec gen_items :: "'a gen \<Rightarrow> 'a list" where
  "gen_items Stop = []"
| "gen_items (Raise e) = []"
| "gen_items (Yield x g) = x # gen_items g"

primrec gen_fault :: "'a gen \<Rightarrow> error option" where
  "gen_fault Stop = None"
| "gen_fault (Raise e) = Some e"
| "gen_fault (Yield x g) = gen_fault g"

text \<open>\<^verbatim>\<open>iter(xs)\<close> for a list.\<close>

primrec of_list :: "'a list \<Rightarrow> 'a gen" where
  "of_list [] = Stop"
| "of_list (x # xs) = Yield x (of_list xs)"

text \<open>\<^verbatim>\<open>list(g)\<close>: all items, or the error met on the way.\<close>

primrec to_list :: "'a gen \<Rightarrow> error + 'a list" where
  "to_list Stop = Inr []"
| "to_list (Raise e) = Inl e"
| "to_list (Yield x g) = (case to_list g of Inl e \<Rightarrow> Inl e | Inr xs \<Rightarrow> Inr (x # xs))"

text \<open>\<^verbatim>\<open>for x in g: yield f(x)\<close> with a function that cannot fail.\<close>

primrec gen_map :: "('a \<Rightarrow> 'b) \<Rightarrow> 'a gen \<Rightarrow> 'b gen" where
  "gen_map f Stop = Stop"
| "gen_map f (Raise e) = Raise e"
| "gen_map f (Yield x g) = Yield (f x) (gen_map f g)"

text \<open>\<^verbatim>\<open>for x in xs: yield x\<close>, then go on as \<open>g\<close>.\<close>

primrec yield_all :: "'a list \<Rightarrow> 'a gen \<Rightarrow> 'a gen" where
  "yield_all [] g = g"
| "yield_all (x # xs) g = Yield x (yield_all xs g)"

section \<open>Columnar assembly\<close>

text \<open>
  A row is a dictionary from field names to values, a batch a dictionary from field
  names to columns.  \<^verbatim>\<open>d.get(key)\<close> is \<open>d key\<close>: \<open>None\<close> is Python's
  \<^verbatim>\<open>None\<close>, the marker of an absent field.
\<close>

type_synonym ('f, 'v) row = "'f \<rightharpoonup> 'v"
type_synonym ('f, 'v) batch = "'f \<rightharpoonup> 'v option list"

text \<open>\<^verbatim>\<open>all_keys = set(itertools.chain.from_iterable(dicts))\<close>\<close>

definition all_keys :: "('f, 'v) row list \<Rightarrow> 'f set" where
  "all_keys dicts = {key. list_ex (\<lambda>d. d key \<noteq> None) dicts}"

text \<open>
  \<^verbatim>\<open>zipped = {key: [] for key in all_keys}\<close>, then for every row and every key of
  \<open>all_keys\<close> the row's value is appended to the key's column.
\<close>

definition zip_dicts :: "('f, 'v) row list \<Rightarrow> ('f, 'v) batch" where
  "zip_dicts dicts =
     foldl (\<lambda>zipped d key. if key \<in> all_keys dicts
                             then map_option (\<lambda>col. col @ [d key]) (zipped key)
                             else zipped key)
           (\<lambda>key. if key \<in> all_keys dicts then Some [] else None)
           dicts"

section \<open>Batcher\<close>

datatype Stage = TRAIN | EVAL | TEST

record Batcher =
  train_batch_size :: int
  eval_batch_size :: int
  test_batch_size :: int

text \<open>
  \<^verbatim>\<open>Batcher.__init__\<close> stores the three sizes as they come; it checks nothing and has
  no \<^verbatim>\<open>raise\<close>, so every call returns an instance.
\<close>

definition Batcher_init :: "int \<Rightarrow> int \<Rightarrow> int \<Rightarrow> error + Batcher" where
  "Batcher_init train_bs eval_bs test_bs =
     Inr \<lparr>train_batch_size = train_bs, eval_batch_size = eval_bs, test_batch_size = test_bs\<rparr>"

text \<open>The dictionary \<^verbatim>\<open>self._batch_sizes\<close>; it has an entry for each stage.\<close>

definition batch_sizes :: "'z Batcher_scheme \<Rightarrow> Stage \<Rightarrow> int" where
  "batch_sizes self stage =
     (case stage of TRAIN \<Rightarrow> train_batch_size self
                  | TEST \<Rightarrow> test_batch_size self
                  | EVAL \<Rightarrow> eval_batch_size self)"

text \<open>
  One output tuple of \<^verbatim>\<open>itertools.zip_longest(*[it] * n)\<close>: up to \<open>n\<close> pulls on the
  one shared iterator.  An exception of the iterator leaves through
  \<^verbatim>\<open>zip_longest\<close>; after StopIteration the remaining places are filled with
  \<^verbatim>\<open>None\<close>, which the caller filters out again, so only the items read are kept.
\<close>

fun pull :: "nat \<Rightarrow> 'a gen \<Rightarrow> error + ('a list \<times> 'a gen)" where
  "pull 0 g = Inr ([], g)"
| "pull (Suc n) Stop = Inr ([], Stop)"
| "pull (Suc n) (Raise e) = Inl e"
| "pull (Suc n) (Yield x g) =
     (case pull n g of Inl e \<Rightarrow> Inl e | Inr (xs, g') \<Rightarrow> Inr (x # xs, g'))"

text \<open>
  \<^verbatim>\<open>group.sort(key=sort_key, reverse=True)\<close>: the keys of all elements are computed
  first, in order, and the first failing key computation is the error; the sort is
  stable, and with \<^verbatim>\<open>reverse=True\<close> it is the reversal of the stable ascending
  sort of the reversed list.
\<close>

primrec keys_of :: "('r \<Rightarrow> error + 'k) \<Rightarrow> 'r list \<Rightarrow> error + 'k list" where
  "keys_of f [] = Inr []"
| "keys_of f (x # xs) =
     (case f x of Inl e \<Rightarrow> Inl e
      | Inr k \<Rightarrow> (case keys_of f xs of Inl e \<Rightarrow> Inl e | Inr ks \<Rightarrow> Inr (k # ks)))"

definition sort_reverse :: "('r \<Rightarrow> error + 'k::linorder) \<Rightarrow> 'r list \<Rightarrow> error + 'r list" where
  "sort_reverse f xs =
     (case keys_of f xs of Inl e \<Rightarrow> Inl e
      | Inr ks \<Rightarrow> Inr (map snd (rev (sort_key fst (rev (zip ks xs))))))"

text \<open>
  The body of the loop of \<^verbatim>\<open>_group_iter\<close>: drop the \<^verbatim>\<open>None\<close> elements of the tuple,
  sort if a sort key is given.
\<close>

definition make_group :: "('r \<Rightarrow> error + 'k::linorder) option \<Rightarrow> 'r option list \<Rightarrow> error + 'r list" where
  "make_group sort_key_fn tuple =
     (let grp = List.map_filter (\<lambda>ex. ex) tuple
      in case sort_key_fn of None \<Rightarrow> Inr grp | Some f \<Rightarrow> sort_reverse f grp)"

lemma pull_size_eq:
  "pull n g = Inr (xs, g') \<Longrightarrow> size g' + length xs = size g"
  by (induction n g arbitrary: xs g' rule: pull.induct) (auto split: sum.splits)

lemma pull_size:
  "pull n g = Inr (xs, g') \<Longrightarrow> xs \<noteq> [] \<Longrightarrow> size g' < size g"
  using pull_size_eq [of n g xs g'] by (cases xs) auto

text \<open>
  \<^verbatim>\<open>Batcher._group_iter\<close>.  An element of the input that is \<^verbatim>\<open>None\<close> is \<open>None\<close>, a
  row \<open>r\<close> is \<open>Some r\<close>.  \<^verbatim>\<open>[iter(iterable)] * group_size\<close> is the empty list for a
  group size of zero or less, and \<^verbatim>\<open>zip_longest()\<close> of no iterators yields nothing.
\<close>

function group_iter ::
  "'r option gen \<Rightarrow> int \<Rightarrow> ('r \<Rightarrow> error + 'k::linorder) option \<Rightarrow> 'r list gen" where
  "group_iter iterable group_size sort_key_fn =
     (if group_size \<le> 0 then Stop
      else case pull (nat group_size) iterable of
             Inl e \<Rightarrow> Raise e
           | Inr (tuple, rest) \<Rightarrow>
               if tuple = [] then Stop
               else case make_group sort_key_fn tuple of
                      Inl e \<Rightarrow> Raise e
                    | Inr grp \<Rightarrow> Yield grp (group_iter rest group_size sort_key_fn))"
  by pat_completeness auto
termination
  by (relation "measure (\<lambda>(g, n, f). size g)") (auto dest: pull_size)

declare group_iter.simps [simp del]

text \<open>
  \<^verbatim>\<open>Batcher.batchify\<close> yields \<^verbatim>\<open>zip_dicts(batch)\<close> for every group; the groups
  themselves, before the columnar assembly, are \<open>Batcher_row_batches\<close>.
\<close>

definition Batcher_row_batches ::
  "'z Batcher_scheme \<Rightarrow> 'r option gen \<Rightarrow> ('r \<Rightarrow> error + 'k::linorder) option \<Rightarrow> Stage
     \<Rightarrow> 'r list gen" where
  "Batcher_row_batches self iterable sort_key_fn stage =
     (let batch_size = batch_sizes self stage
      in group_iter iterable batch_size sort_key_fn)"

definition Batcher_batchify ::
  "'z Batcher_scheme \<Rightarrow> ('f, 'v) row option gen \<Rightarrow> (('f, 'v) row \<Rightarrow> error + 'k::linorder) option
     \<Rightarrow> Stage \<Rightarrow> ('f, 'v) batch gen" where
  "Batcher_batchify self iterable sort_key_fn stage =
     gen_map zip_dicts (Batcher_row_batches self iterable sort_key_fn stage)"

section \<open>PoolingBatcher\<close>

record PoolingBatcher = Batcher +
  pool_num_batches :: int

text \<open>
  \<^verbatim>\<open>self.pool_num_batches = pool_num_batches or 1\<close>: the argument is kept unless it is
  falsy, that is \<^verbatim>\<open>None\<close> (\<open>None\<close>) or \<open>0\<close>.  The constructor has no
  \<^verbatim>\<open>raise\<close> either.
\<close>

definition PoolingBatcher_init ::
  "int \<Rightarrow> int \<Rightarrow> int \<Rightarrow> int option \<Rightarrow> error + PoolingBatcher" where
  "PoolingBatcher_init train_bs eval_bs test_bs pool_nb =
     Inr \<lparr>train_batch_size = train_bs, eval_batch_size = eval_bs, test_batch_size = test_bs,
          pool_num_batches = (case pool_nb of None \<Rightarrow> 1 | Some n \<Rightarrow> if n = 0 then 1 else n)\<rparr>"

text \<open>
  \<^verbatim>\<open>math.ceil(a / b)\<close> for integers: the true division raises on a zero divisor.
  (The quotient is a float in Python; the model takes it exact, which it is for
  list lengths below \<open>2^53\<close>.)
\<close>

definition py_ceil_div :: "int \<Rightarrow> int \<Rightarrow> error + int" where
  "py_ceil_div a b = (if b = 0 then Inl ZeroDivisionError else Inr (- ((- a) div b)))"

text \<open>\<^verbatim>\<open>list(range(m))\<close>, empty for \<open>m \<le> 0\<close>.\<close>

definition py_range :: "int \<Rightarrow> int list" where
  "py_range m = map int [0..<nat m]"

text \<open>\<^verbatim>\<open>xs[a:b]\<close>: a negative bound counts from the end, and both are clamped.\<close>

definition py_slice :: "'a list \<Rightarrow> int \<Rightarrow> int \<Rightarrow> 'a list" where
  "py_slice xs a b =
     (let n = int (length xs);
          lo = (if a < 0 then max 0 (a + n) else min a n);
          hi = (if b < 0 then max 0 (b + n) else min b n)
      in take (nat (hi - lo)) (drop (nat lo) xs))"

text \<open>
  \<^verbatim>\<open>random.shuffle(xs)\<close>, given the permutation of the positions that the random
  source draws: the new list has at place \<open>j\<close> the old element of place \<open>perm ! j\<close>.
  The random source is a function \<open>rnd\<close>: \<open>rnd k n\<close> is the permutation of
  \<open>[0..<n]\<close> drawn by the \<open>k\<close>-th call of a batchify run, on a list of length \<open>n\<close>.
\<close>

definition shuffle :: "nat list \<Rightarrow> 'a list \<Rightarrow> 'a list" where
  "shuffle perm xs = map (\<lambda>i. xs ! i) perm"

definition valid_rnd :: "(nat \<Rightarrow> nat \<Rightarrow> nat list) \<Rightarrow> bool" where
  "valid_rnd rnd = (\<forall>k n. mset (rnd k n) = mset [0..<n])"

definition identity_rnd :: "nat \<Rightarrow> nat \<Rightarrow> nat list" where
  "identity_rnd k n = [0..<n]"

text \<open>
  The body of the loop over the pools of \<^verbatim>\<open>PoolingBatcher.batchify\<close>: the batches
  that one pool yields, in the order it yields them.  \<open>draw n\<close> is the permutation
  that the pool's one call of \<^verbatim>\<open>random.shuffle\<close> draws for a list of length \<open>n\<close>;
  the call is on the batch indices when there is a sort key (\<open>has_key\<close>), on the
  pool otherwise.
\<close>

definition pool_batches ::
  "(nat \<Rightarrow> nat list) \<Rightarrow> int \<Rightarrow> bool \<Rightarrow> 'r list \<Rightarrow> error + 'r list list" where
  "pool_batches draw batch_size has_key pool =
     (case py_ceil_div (int (length pool)) batch_size of
        Inl e \<Rightarrow> Inl e
      | Inr m \<Rightarrow>
          let batch_indices = py_range m;
              batch_indices' = (if has_key then shuffle (draw (length batch_indices)) batch_indices
                                else batch_indices);
              pool' = (if has_key then pool else shuffle (draw (length pool)) pool)
          in Inr (map (\<lambda>batch_index.
                         py_slice pool' (batch_size * batch_index) (batch_size * (batch_index + 1)))
                      batch_indices'))"

text \<open>The loop over the pools; \<open>k\<close> counts them, and so the calls of the random source.\<close>

fun pools_loop ::
  "(nat \<Rightarrow> nat \<Rightarrow> nat list) \<Rightarrow> int \<Rightarrow> bool \<Rightarrow> nat \<Rightarrow> 'r list gen \<Rightarrow> 'r list gen" where
  "pools_loop rnd batch_size has_key k Stop = Stop"
| "pools_loop rnd batch_size has_key k (Raise e) = Raise e"
| "pools_loop rnd batch_size has_key k (Yield pool rest) =
     (case pool_batches (rnd k) batch_size has_key pool of
        Inl e \<Rightarrow> Raise e
      | Inr bs \<Rightarrow> yield_all bs (pools_loop rnd batch_size has_key (Suc k) rest))"

definition PoolingBatcher_row_batches ::
  "PoolingBatcher \<Rightarrow> (nat \<Rightarrow> nat \<Rightarrow> nat list) \<Rightarrow> 'r option gen
     \<Rightarrow> ('r \<Rightarrow> error + 'k::linorder) option \<Rightarrow> Stage \<Rightarrow> 'r list gen" where
  "PoolingBatcher_row_batches self rnd iterable sort_key_fn stage =
     (let batch_size = batch_sizes self stage;
          pool_size = batch_size * pool_num_batches self
      in pools_loop rnd batch_size (sort_key_fn \<noteq> None) 0
           (group_iter iterable pool_size sort_key_fn))"

definition PoolingBatcher_batchify ::
  "PoolingBatcher \<Rightarrow> (nat \<Rightarrow> nat \<Rightarrow> nat list) \<Rightarrow> ('f, 'v) row option gen
     \<Rightarrow> (('f, 'v) row \<Rightarrow> error + 'k::linorder) option \<Rightarrow> Stage \<Rightarrow> ('f, 'v) batch gen" where
  "PoolingBatcher_batchify self rnd iterable sort_key_fn stage =
     gen_map zip_dicts (PoolingBatcher_row_batches self rnd iterable sort_key_fn stage)"

section \<open>Numberize and tensorize\<close>

text \<open>
  A field converter (tensorizer) is an external collaborator; the pipeline uses its
  \<^verbatim>\<open>numberize\<close> (one raw row to one converted value; it may raise), its
  \<^verbatim>\<open>sort_key\<close>, its \<^verbatim>\<open>tensorize\<close> (a column, or the whole batch for a
  \<^verbatim>\<open>MetricTensorizer\<close>; it may raise) and whether it is a \<^verbatim>\<open>MetricTensorizer\<close>.
\<close>

datatype 'v tensorize_arg = Column "'v option list" | Whole_batch "(string, 'v) batch"

record ('raw, 'v, 'k, 't) Tensorizer =
  is_metric :: bool
  numberize :: "'raw \<Rightarrow> error + 'v"
  sort_key_of :: "'v \<Rightarrow> 'k"
  tensorize :: "'v tensorize_arg \<Rightarrow> error + 't"

text \<open>
  The dictionary \<^verbatim>\<open>tensorizers\<close> in its insertion order; \<^verbatim>\<open>tensorizers[name]\<close> is
  \<open>map_of\<close>.
\<close>

type_synonym ('raw, 'v, 'k, 't) tensorizers = "(string \<times> ('raw, 'v, 'k, 't) Tensorizer) list"

text \<open>
  \<^verbatim>\<open>{name: tensorizer.numberize(row) for name, tensorizer in self.tensorizers.items()}\<close>
\<close>

fun numberize_row ::
  "('raw, 'v, 'k, 't) tensorizers \<Rightarrow> 'raw \<Rightarrow> (string, 'v) row \<Rightarrow> error + (string, 'v) row" where
  "numberize_row [] raw acc = Inr acc"
| "numberize_row ((name, tensorizer) # items) raw acc =
     (case numberize tensorizer raw of
        Inl e \<Rightarrow> Inl e
      | Inr v \<Rightarrow> numberize_row items raw (acc(name \<mapsto> v)))"

text \<open>\<^verbatim>\<open>Data.numberize_rows\<close>, a generator: a row is converted when it is pulled.\<close>

primrec numberize_rows ::
  "('raw, 'v, 'k, 't) tensorizers \<Rightarrow> 'raw list \<Rightarrow> (string, 'v) row gen" where
  "numberize_rows tzs [] = Stop"
| "numberize_rows tzs (raw # rows) =
     (case numberize_row tzs raw Map.empty of
        Inl e \<Rightarrow> Raise e
      | Inr r \<Rightarrow> Yield r (numberize_rows tzs rows))"

text \<open>
  The inner loop of \<^verbatim>\<open>pad_and_tensorize_batches\<close>, filling \<^verbatim>\<open>tensor_dict\<close>;
  \<^verbatim>\<open>batch[name]\<close> raises KeyError for a field the batch does not have.
\<close>

fun tensor_dict_loop ::
  "('raw, 'v, 'k, 't) tensorizers \<Rightarrow> (string, 'v) batch \<Rightarrow> (string \<rightharpoonup> 't)
     \<Rightarrow> error + (string \<rightharpoonup> 't)" where
  "tensor_dict_loop [] b tensor_dict = Inr tensor_dict"
| "tensor_dict_loop ((name, tensorizer) # items) b tensor_dict =
     (case (if is_metric tensorizer then tensorize tensorizer (Whole_batch b)
            else (case b name of
                    None \<Rightarrow> Inl (KeyError name)
                  | Some col \<Rightarrow> tensorize tensorizer (Column col))) of
        Inl e \<Rightarrow> Inl e
      | Inr t \<Rightarrow> tensor_dict_loop items b (tensor_dict(name \<mapsto> t)))"

primrec pad_and_tensorize_batches ::
  "('raw, 'v, 'k, 't) tensorizers \<Rightarrow> (string, 'v) batch gen \<Rightarrow> (string \<rightharpoonup> 't) gen" where
  "pad_and_tensorize_batches tzs Stop = Stop"
| "pad_and_tensorize_batches tzs (Raise e) = Raise e"
| "pad_and_tensorize_batches tzs (Yield b batches) =
     (case tensor_dict_loop tzs b Map.empty of
        Inl e \<Rightarrow> Raise e
      | Inr tensor_dict \<Rightarrow> Yield tensor_dict (pad_and_tensorize_batches tzs batches))"

section \<open>Data\<close>

text \<open>
  The data source is external.  Its three row streams are functions of a read number:
  \<open>train src k\<close> is the list of rows that the stream delivers when it is fetched as
  the \<open>k\<close>-th fetch of the Data object, so a source may deliver something else at
  every read.
\<close>

record 'raw DataSource =
  train :: "nat \<Rightarrow> 'raw list"
  test :: "nat \<Rightarrow> 'raw list"
  eval :: "nat \<Rightarrow> 'raw list"

text \<open>Either class of batcher; \<^verbatim>\<open>batchify\<close> is dispatched on the class.\<close>

datatype AnyBatcher = Plain Batcher | Pooling PoolingBatcher

definition batchify ::
  "AnyBatcher \<Rightarrow> (nat \<Rightarrow> nat \<Rightarrow> nat list) \<Rightarrow> ('f, 'v) row option gen
     \<Rightarrow> (('f, 'v) row \<Rightarrow> error + 'k::linorder) option \<Rightarrow> Stage \<Rightarrow> ('f, 'v) batch gen" where
  "batchify b rnd iterable sort_key_fn stage =
     (case b of
        Plain p \<Rightarrow> Batcher_batchify p iterable sort_key_fn stage
      | Pooling p \<Rightarrow> PoolingBatcher_batchify p rnd iterable sort_key_fn stage)"

text \<open>
  The attributes of a \<^verbatim>\<open>Data\<close> object.  \<open>batch\<close> is \<^verbatim>\<open>self.batch\<close>, the live cursor
  of each stage (\<open>None\<close> for \<^verbatim>\<open>None\<close>); \<open>sort_key_name\<close> is \<^verbatim>\<open>self.sort_key\<close>;
  \<open>in_memory\<close> is the truth value of \<^verbatim>\<open>self.in_memory\<close>.  \<open>reads\<close> is not an
  attribute: it counts the fetches of a row stream, to number the reads of the data
  source and the runs of the random source.
\<close>

record ('raw, 'v, 'k, 't) Data =
  data_source :: "'raw DataSource"
  tensorizers :: "('raw, 'v, 'k, 't) tensorizers"
  batcher :: AnyBatcher
  sort_key_name :: "string option"
  epoch_size :: "int option"
  in_memory :: bool
  batch :: "Stage \<Rightarrow> (string \<rightharpoonup> 't) gen option"
  numberized_cache :: "Stage \<rightharpoonup> (string, 'v) row list"
  num_batches :: int
  reads :: nat

text \<open>
  \<^verbatim>\<open>Data.__init__\<close>; \<^verbatim>\<open>batcher or Batcher()\<close> takes the default batcher, with batch
  sizes 16, when none is given.  (\<^verbatim>\<open>initialize_tensorizers\<close> belongs to the
  tensorizers, which the model takes as initialised.)
\<close>

definition Data_init ::
  "'raw DataSource \<Rightarrow> ('raw, 'v, 'k, 't) tensorizers \<Rightarrow> AnyBatcher option \<Rightarrow> string option
     \<Rightarrow> int option \<Rightarrow> bool \<Rightarrow> ('raw, 'v, 'k, 't) Data" where
  "Data_init src tzs batcher_arg sort_key_arg epoch_size_arg in_memory_arg =
     \<lparr>data_source = src, tensorizers = tzs,
      batcher = (case batcher_arg of
                   None \<Rightarrow> Plain \<lparr>train_batch_size = 16, eval_batch_size = 16, test_batch_size = 16\<rparr>
                 | Some b \<Rightarrow> b),
      sort_key_name = sort_key_arg, epoch_size = epoch_size_arg, in_memory = in_memory_arg,
      batch = (\<lambda>stage. None), numberized_cache = Map.empty, num_batches = 0, reads = 0\<rparr>"

text \<open>
  The sort key that \<^verbatim>\<open>_get_batches\<close> hands to the batcher:
  \<^verbatim>\<open>lambda row: self.tensorizers[self.sort_key].sort_key(row[self.sort_key])\<close> if
  \<^verbatim>\<open>self.sort_key\<close> is truthy (neither \<^verbatim>\<open>None\<close> nor the empty string), else
  \<^verbatim>\<open>None\<close>.  The two subscripts raise KeyError, when the lambda is called.
\<close>

definition sort_key_lambda ::
  "('raw, 'v, 'k, 't) tensorizers \<Rightarrow> string \<Rightarrow> (string, 'v) row \<Rightarrow> error + 'k" where
  "sort_key_lambda tzs name r =
     (case map_of tzs name of
        None \<Rightarrow> Inl (KeyError name)
      | Some tensorizer \<Rightarrow>
          (case r name of
             None \<Rightarrow> Inl (KeyError name)
           | Some v \<Rightarrow> Inr (sort_key_of tensorizer v)))"

definition sort_key_arg_of ::
  "('raw, 'v, 'k, 't, 'z) Data_scheme \<Rightarrow> ((string, 'v) row \<Rightarrow> error + 'k) option" where
  "sort_key_arg_of self =
     (case sort_key_name self of
        None \<Rightarrow> None
      | Some name \<Rightarrow> if name = [] then None else Some (sort_key_lambda (tensorizers self) name))"

text \<open>\<^verbatim>\<open>not numberized_rows\<close> for the result of \<^verbatim>\<open>self.numberized_cache.get(stage, None)\<close>.\<close>

definition not_rows :: "'a list option \<Rightarrow> bool" where
  "not_rows numberized_rows = (case numberized_rows of None \<Rightarrow> True | Some xs \<Rightarrow> xs = [])"

text \<open>
  \<^verbatim>\<open>{Stage.TRAIN: data_source.train, Stage.TEST: data_source.test,
  Stage.EVAL: data_source.eval}[stage]\<close>, at the read number \<open>k\<close>.
\<close>

definition stage_rows :: "'raw DataSource \<Rightarrow> Stage \<Rightarrow> nat \<Rightarrow> 'raw list" where
  "stage_rows src stage k =
     (case stage of TRAIN \<Rightarrow> train src k | TEST \<Rightarrow> test src k | EVAL \<Rightarrow> eval src k)"

text \<open>
  The end of \<^verbatim>\<open>_get_batches\<close>: the numberized rows go to the batcher, with the sort
  key, and the batches to \<^verbatim>\<open>pad_and_tensorize_batches\<close>; the result, a generator of
  which nothing has run yet, is the cursor.  The batcher is called without a stage, so
  with its default \<^verbatim>\<open>Stage.TRAIN\<close>.  \<open>rnd\<close> is the random source of this run of
  the batcher.
\<close>

definition make_cursor ::
  "(nat \<Rightarrow> nat \<Rightarrow> nat list) \<Rightarrow> ('raw, 'v, 'k::linorder, 't, 'z) Data_scheme \<Rightarrow> (string, 'v) row gen
     \<Rightarrow> (string \<rightharpoonup> 't) gen" where
  "make_cursor rnd self numberized_rows =
     (let batches = batchify (batcher self) rnd (gen_map Some numberized_rows)
                      (sort_key_arg_of self) TRAIN
      in pad_and_tensorize_batches (tensorizers self) batches)"

text \<open>
  \<^verbatim>\<open>Data._get_batches\<close>.  It returns the cursor, or the error raised on the way, and
  the object as it is then.  \<open>rng d\<close> is the random source of the batchify run that
  the \<open>d\<close>-th fetch starts.  With \<^verbatim>\<open>in_memory\<close>, \<^verbatim>\<open>list(self.numberize_rows(rows))\<close>
  runs the conversion of all rows at once, and an error of it leaves the function
  before the cache is written.
\<close>

definition get_batches ::
  "(nat \<Rightarrow> nat \<Rightarrow> nat \<Rightarrow> nat list) \<Rightarrow> ('raw, 'v, 'k::linorder, 't) Data \<Rightarrow> Stage \<Rightarrow> 'raw DataSource
     \<Rightarrow> (error + (string \<rightharpoonup> 't) gen) \<times> ('raw, 'v, 'k, 't) Data" where
  "get_batches rng self stage src =
     (case batch self stage of
        Some cursor \<Rightarrow> (Inr cursor, self)
      | None \<Rightarrow>
          let rows = stage_rows src stage (reads self);
              self1 = self\<lparr>reads := Suc (reads self)\<rparr>
          in case (if in_memory self1 then
                     (let numberized_rows = numberized_cache self1 stage
                      in if not_rows numberized_rows then
                           (case to_list (numberize_rows (tensorizers self1) rows) of
                              Inl e \<Rightarrow> (Inl e, self1)
                            | Inr nr \<Rightarrow>
                                (Inr (of_list nr),
                                 self1\<lparr>numberized_cache := (numberized_cache self1)(stage \<mapsto> nr)\<rparr>))
                         else (Inr (of_list (the numberized_rows)), self1))
                   else (Inr (numberize_rows (tensorizers self1) rows), self1)) of
               (Inl e, self2) \<Rightarrow> (Inl e, self2)
             | (Inr numberized_rows, self2) \<Rightarrow>
                 let cursor = make_cursor (rng (reads self)) self2 numberized_rows
                 in (Inr cursor, self2\<lparr>batch := (batch self2)(stage := Some cursor)\<rparr>))"

text \<open>
  How the \<^verbatim>\<open>for\<close> loop of \<^verbatim>\<open>Data.batches\<close> over the cursor ends: by the \<^verbatim>\<open>return\<close>
  at the epoch bound, by the exhaustion of the cursor, or by an error of the cursor.
\<close>

datatype loop_exit = Returned | Exhausted | Failed error

text \<open>
  The \<^verbatim>\<open>for\<close> loop: the batches it yields, how it ends, and the object then.  The
  cursor is an object that the loop advances; \<open>batch self stage\<close> is what is left
  of it when the loop ends.  A generator that has raised is finished.
\<close>

fun for_loop ::
  "Stage \<Rightarrow> ('raw, 'v, 'k, 't) Data \<Rightarrow> (string \<rightharpoonup> 't) gen
     \<Rightarrow> (string \<rightharpoonup> 't) list \<times> loop_exit \<times> ('raw, 'v, 'k, 't) Data" where
  "for_loop stage self Stop = ([], Exhausted, self\<lparr>batch := (batch self)(stage := Some Stop)\<rparr>)"
| "for_loop stage self (Raise e) = ([], Failed e, self\<lparr>batch := (batch self)(stage := Some Stop)\<rparr>)"
| "for_loop stage self (Yield b cursor) =
     (if stage = TRAIN \<and> epoch_size self = Some (num_batches self)
      then ([], Returned, self\<lparr>num_batches := 0, batch := (batch self)(stage := Some cursor)\<rparr>)
      else case for_loop stage (self\<lparr>num_batches := num_batches self + 1\<rparr>) cursor of
             (ys, how, self') \<Rightarrow> (b # ys, how, self'))"

text \<open>
  The \<^verbatim>\<open>while True\<close> loop of \<^verbatim>\<open>Data.batches\<close>, consumed to its end: the batches
  yielded, the error if the generator ends by one, and the object then.  The loop
  need not end, so the result is optional.
\<close>

partial_function (option) batches_while ::
  "(nat \<Rightarrow> nat \<Rightarrow> nat \<Rightarrow> nat list) \<Rightarrow> Stage \<Rightarrow> 'raw DataSource \<Rightarrow> ('raw, 'v, 'k::linorder, 't) Data
     \<Rightarrow> ((string \<rightharpoonup> 't) list \<times> error option \<times> ('raw, 'v, 'k, 't) Data) option" where
  "batches_while rng stage src self =
     (case get_batches rng self stage src of
        (Inl e, self1) \<Rightarrow> Some ([], Some e, self1)
      | (Inr cursor, self1) \<Rightarrow>
          (case for_loop stage self1 cursor of
             (ys, Returned, self2) \<Rightarrow> Some (ys, None, self2)
           | (ys, Failed e, self2) \<Rightarrow> Some (ys, Some e, self2)
           | (ys, Exhausted, self2) \<Rightarrow>
               (let self3 = self2\<lparr>batch := (batch self2)(stage := None)\<rparr>
                in if stage \<noteq> TRAIN \<or> epoch_size self3 = None \<or> epoch_size self3 = Some 0
                   then Some (ys, None, self3)
                   else Option.bind (batches_while rng stage src self3)
                          (\<lambda>(zs, err, self4). Some (ys @ zs, err, self4)))))"

declare batches_while.simps [code]

text \<open>
  \<^verbatim>\<open>Data.batches\<close>, one traversal of the restartable iterable that the decorator
  makes of it, consumed to its end.
\<close>

definition batches ::
  "(nat \<Rightarrow> nat \<Rightarrow> nat \<Rightarrow> nat list) \<Rightarrow> ('raw, 'v, 'k::linorder, 't) Data \<Rightarrow> Stage
     \<Rightarrow> 'raw DataSource option
     \<Rightarrow> ((string \<rightharpoonup> 't) list \<times> error option \<times> ('raw, 'v, 'k, 't) Data) option" where
  "batches rng self stage data_source_arg =
     (let src = (case data_source_arg of None \<Rightarrow> data_source self | Some d \<Rightarrow> d)
      in batches_while rng stage src (self\<lparr>num_batches := 0\<rparr>))"

section \<open>Notions for the statements\<close>

text \<open>
  The consecutive segments of length \<open>n\<close> of a list, the last one shorter when the
  length is no multiple of \<open>n\<close>; none for \<open>n = 0\<close>.
\<close>

fun chunks :: "nat \<Rightarrow> 'a list \<Rightarrow> 'a list list" where
  "chunks n xs = (if n = 0 \<or> xs = [] then [] else take n xs # chunks n (drop n xs))"

declare chunks.simps [simp del]

text \<open>The stable sort by descending key.\<close>

definition sort_desc :: "('a \<Rightarrow> 'k::linorder) \<Rightarrow> 'a list \<Rightarrow> 'a list" where
  "sort_desc f xs = rev (sort_key f (rev xs))"

definition total_key :: "('r \<Rightarrow> 'k) option \<Rightarrow> ('r \<Rightarrow> error + 'k) option" where
  "total_key ko = map_option (\<lambda>f r. Inr (f r)) ko"

definition group_of :: "('r \<Rightarrow> 'k::linorder) option \<Rightarrow> 'r option list \<Rightarrow> 'r list" where
  "group_of ko tuple =
     (case ko of None \<Rightarrow> List.map_filter (\<lambda>ex. ex) tuple
      | Some f \<Rightarrow> sort_desc f (List.map_filter (\<lambda>ex. ex) tuple))"

definition example_tensorizers :: "(int, int, int, nat) tensorizers" where
  "example_tensorizers =
     [(''x'', \<lparr>is_metric = False,
              numberize = (\<lambda>raw. if raw < 0 then Inl (TensorizerError 7) else Inr raw),
              sort_key_of = (\<lambda>v. v),
              tensorize = (\<lambda>arg. Inr (case arg of Column c \<Rightarrow> length c | Whole_batch b \<Rightarrow> 0))\<rparr>)]"

definition example_source :: "int DataSource" where
  "example_source =
     \<lparr>train = (\<lambda>k. [1, 2, 3]), test = (\<lambda>k. []),
      eval = (\<lambda>k. if k = 0 then [] else [5, - 1])\<rparr>"


section \<open>Properties of the columnar assembly\<close>

lemma in_all_keys: "key \<in> all_keys dicts \<longleftrightarrow> (\<exists>d\<in>set dicts. d key \<noteq> None)"
  by (simp add: all_keys_def list_ex_iff)

lemma zip_fold:
  "foldl (\<lambda>zipped d key. if key \<in> K then map_option (\<lambda>col. col @ [d key]) (zipped key)
                          else zipped key) z0 dicts
   = (\<lambda>key. if key \<in> K then map_option (\<lambda>col. col @ map (\<lambda>d. d key) dicts) (z0 key)
             else z0 key)"
proof (induction dicts arbitrary: z0)
  case Nil
  show ?case by (auto simp: fun_eq_iff option.map_ident)
next
  case (Cons d dicts)
  show ?case
    unfolding foldl_Cons Cons.IH
    by (auto simp: fun_eq_iff option.map_comp comp_def)
qed

text \<open>The loops of \<open>zip_dicts\<close> in closed form: a column per key of some row.\<close>

lemma zip_dicts_apply:
  "zip_dicts dicts key =
     (if key \<in> all_keys dicts then Some (map (\<lambda>d. d key) dicts) else None)"
  unfolding zip_dicts_def zip_fold by simp

lemma zip_dicts_code [code]:
  "zip_dicts dicts key =
     (if list_ex (\<lambda>d. d key \<noteq> None) dicts then Some (map (\<lambda>d. d key) dicts) else None)"
  by (simp add: zip_dicts_apply in_all_keys list_ex_iff)

text \<open>
  Claim C5, as amended.  For every list of rows, the keys of \<open>zip_dicts rows\<close> are
  the union of the keys of the rows, and each key maps to the list that has, for
  every row in input order, the row's value for the key, or the absent marker
  \<open>None\<close> where the row lacks the key; nothing raises.  For \<open>N \<ge> 1\<close> rows that each
  map the one field \<open>f\<close> to \<open>v\<close>, the result maps \<open>f\<close> to \<open>N\<close> copies of \<open>v\<close>.  For
  no rows at all the result is the empty mapping: it has no field and so no column.
\<close>

theorem zip_dicts_columns:
  "dom (zip_dicts rows) = (\<Union>r\<in>set rows. dom r) \<and>
   (\<forall>key. key \<in> dom (zip_dicts rows) \<longrightarrow> zip_dicts rows key = Some (map (\<lambda>r. r key) rows)) \<and>
   (0 < N \<longrightarrow> zip_dicts (replicate N [f \<mapsto> v]) = [f \<mapsto> replicate N (Some v)]) \<and>
   zip_dicts ([] :: ('f, 'v) row list) = Map.empty"
proof (intro conjI allI impI)
  show "dom (zip_dicts rows) = (\<Union>r\<in>set rows. dom r)"
    by (auto simp: dom_def zip_dicts_apply in_all_keys)
  show "zip_dicts rows key = Some (map (\<lambda>r. r key) rows)" if "key \<in> dom (zip_dicts rows)" for key
    using that by (auto simp: dom_def zip_dicts_apply split: if_splits)
  show "zip_dicts (replicate N [f \<mapsto> v]) = [f \<mapsto> replicate N (Some v)]" if "0 < N"
  proof -
    from that have "key \<in> all_keys (replicate N [f \<mapsto> v]) \<longleftrightarrow> key = f" for key
      by (simp add: in_all_keys)
    then show ?thesis
      by (simp add: fun_eq_iff zip_dicts_apply map_replicate_const)
  qed
  show "zip_dicts ([] :: ('f, 'v) row list) = Map.empty"
    by (simp add: fun_eq_iff zip_dicts_apply in_all_keys)
qed

text \<open>
  Two rows, the first of which lacks the field \<open>b\<close>, and two equal single-field rows.
\<close>

theorem zip_dicts_columns_witness:
  "zip_dicts [[''a'' \<mapsto> (1::int)], [''a'' \<mapsto> 2, ''b'' \<mapsto> 3]] ''b'' = Some [None, Some 3] \<and>
   zip_dicts (replicate 2 [''a'' \<mapsto> (7::int)]) = [''a'' \<mapsto> [Some 7, Some 7]]"
proof -
  let ?rows = "[[''a'' \<mapsto> (1::int)], [''a'' \<mapsto> 2, ''b'' \<mapsto> 3]]"
  note inst = zip_dicts_columns [of ?rows 2 "''a''" "7::int"]
  have "''b'' \<in> dom (zip_dicts ?rows)"
    by (simp add: dom_def zip_dicts_apply in_all_keys)
  with inst have "zip_dicts ?rows ''b'' = Some (map (\<lambda>r. r ''b'') ?rows)"
    by blast
  moreover have "0 < (2::nat)"
    by simp
  with inst have "zip_dicts (replicate 2 [''a'' \<mapsto> (7::int)]) = [''a'' \<mapsto> replicate 2 (Some 7)]"
    by blast
  ultimately show ?thesis
    by (simp add: numeral_2_eq_2)
qed

text \<open>
  Claim C5 as it is written fails for \<open>N = 0\<close>: of no rows, \<open>zip_dicts\<close> makes the
  empty dictionary, in which the field is not mapped to the empty column.
\<close>

theorem zip_dicts_no_rows_counterexample:
  "zip_dicts (replicate 0 [''a'' \<mapsto> (7::int)]) \<noteq> [''a'' \<mapsto> replicate 0 (Some 7)]"
  by (simp add: fun_eq_iff zip_dicts_apply in_all_keys)

section \<open>Segments of a list\<close>

lemma chunks_Nil [simp]: "chunks n [] = []"
  by (simp add: chunks.simps)

lemma chunks_0 [simp]: "chunks 0 xs = []"
  by (simp add: chunks.simps)

lemma chunks_nonempty: "0 < n \<Longrightarrow> xs \<noteq> [] \<Longrightarrow> chunks n xs = take n xs # chunks n (drop n xs)"
  by (subst chunks.simps) simp

lemma concat_chunks: "0 < n \<Longrightarrow> concat (chunks n xs) = xs"
proof (induction n xs rule: chunks.induct)
  case (1 n xs)
  then show ?case
    by (cases "xs = []") (simp_all add: chunks_nonempty)
qed

lemma chunks_map: "chunks n (map f xs) = map (map f) (chunks n xs)"
proof (induction n xs rule: chunks.induct)
  case (1 n xs)
  show ?case
  proof (cases "n = 0 \<or> xs = []")
    case True
    then show ?thesis by auto
  next
    case False
    with 1 show ?thesis
      by (simp add: chunks_nonempty take_map drop_map)
  qed
qed

lemma chunks_append:
  "0 < n \<Longrightarrow> n dvd length ys \<Longrightarrow> chunks n (ys @ zs) = chunks n ys @ chunks n zs"
proof (induction n ys rule: chunks.induct)
  case (1 n ys)
  show ?case
  proof (cases "ys = []")
    case True
    then show ?thesis by simp
  next
    case False
    with 1(3) 1(2) have len: "n \<le> length ys"
      by (auto dest: dvd_imp_le)
    from 1(3) len have "n dvd length (drop n ys)"
      by (simp add: dvd_diff_nat)
    with 1 False have "chunks n (drop n ys @ zs) = chunks n (drop n ys) @ chunks n zs"
      by simp
    with False len 1(2) show ?thesis
      by (simp add: chunks_nonempty)
  qed
qed

lemma concat_chunks_chunks:
  "0 < b \<Longrightarrow> 0 < p \<Longrightarrow> concat (map (chunks b) (chunks (b * p) xs)) = chunks b xs"
proof (induction "b * p" xs arbitrary: rule: chunks.induct)
  case (1 xs)
  show ?case
  proof (cases "xs = []")
    case True
    then show ?thesis by simp
  next
    case False
    from 1 have bp: "0 < b * p" by simp
    show ?thesis
    proof (cases "b * p \<le> length xs")
      case True
      then have "b dvd length (take (b * p) xs)" by simp
      with 1 have "chunks b (take (b * p) xs @ drop (b * p) xs)
                    = chunks b (take (b * p) xs) @ chunks b (drop (b * p) xs)"
        by (intro chunks_append) auto
      with 1 False bp show ?thesis
        by (simp add: chunks_nonempty [of "b * p"])
    next
      case no: False
      with 1 False bp show ?thesis
        by (simp add: chunks_nonempty [of "b * p"])
    qed
  qed
qed

lemma ceil_div_step:
  "0 < n \<Longrightarrow> n \<le> m \<Longrightarrow> (m + n - 1) div n = Suc ((m - n + n - 1) div n)"
proof -
  assume a: "0 < n" "n \<le> m"
  then have e1: "m + n - 1 = (m - 1) + n" and e2: "m - n + n - 1 = m - 1"
    by arith+
  from a have "((m - 1) + n) div n = (m - 1) div n + 1"
    by (intro div_add_self2) simp
  then show ?thesis
    unfolding e1 e2 by simp
qed

lemma ceil_div_small: "0 < m \<Longrightarrow> m < n \<Longrightarrow> (m + n - 1) div n = (1::nat)"
proof -
  assume a: "0 < m" "m < n"
  then have e1: "m + n - 1 = (m - 1) + n" and lt: "m - 1 < n"
    by arith+
  from a have "((m - 1) + n) div n = (m - 1) div n + 1"
    by (intro div_add_self2) simp
  with lt show ?thesis
    unfolding e1 by simp
qed

lemma length_chunks: "0 < n \<Longrightarrow> length (chunks n xs) = (length xs + n - 1) div n"
proof (induction n xs rule: chunks.induct)
  case (1 n xs)
  show ?case
  proof (cases "xs = []")
    case True
    with 1(2) show ?thesis by simp
  next
    case False
    show ?thesis
    proof (cases "n \<le> length xs")
      case True
      with 1 False have "length (chunks n xs) = Suc ((length xs - n + n - 1) div n)"
        by (simp add: chunks_nonempty)
      with True 1(2) show ?thesis
        by (simp only: ceil_div_step)
    next
      case no: False
      with 1 False have "length (chunks n xs) = 1"
        by (simp add: chunks_nonempty)
      moreover from no False have "(length xs + n - 1) div n = 1"
        by (intro ceil_div_small) simp_all
      ultimately show ?thesis
        by simp
    qed
  qed
qed

lemma chunks_nth:
  "0 < n \<Longrightarrow> i < length (chunks n xs) \<Longrightarrow> chunks n xs ! i = take n (drop (n * i) xs)"
proof (induction n xs arbitrary: i rule: chunks.induct)
  case (1 n xs)
  from 1(3) have ne: "xs \<noteq> []" by auto
  show ?case
  proof (cases i)
    case 0
    with ne 1(2) show ?thesis by (simp add: chunks_nonempty)
  next
    case (Suc j)
    with 1 ne have "chunks n (drop n xs) ! j = take n (drop (n * j) (drop n xs))"
      by (simp add: chunks_nonempty)
    with Suc ne 1(2) show ?thesis
      by (simp add: chunks_nonempty add.commute)
  qed
qed

section \<open>Grouping a list\<close>

lemma pull_Stop [simp]: "pull n Stop = Inr ([], Stop)"
  by (cases n) simp_all

lemma pull_of_list: "pull n (of_list xs) = Inr (take n xs, of_list (drop n xs))"
proof (induction n arbitrary: xs)
  case 0
  show ?case by simp
next
  case (Suc n)
  then show ?case by (cases xs) simp_all
qed

lemma map_filter_Some [simp]: "List.map_filter (\<lambda>ex. ex) (map Some xs) = xs"
  by (induction xs) (simp_all add: List.map_filter_simps)

lemma map_filter_as_filter:
  "map Some (List.map_filter (\<lambda>ex. ex) xs) = filter (\<lambda>ex. ex \<noteq> None) xs"
  by (induction xs) (auto simp: List.map_filter_simps split: option.splits)

lemma keys_of_total: "keys_of (\<lambda>r. Inr (f r)) xs = Inr (map f xs)"
  by (induction xs) simp_all

lemma insort_key_pair:
  "insort_key fst (f x, x) (map (\<lambda>y. (f y, y)) ys) = map (\<lambda>y. (f y, y)) (insort_key f x ys)"
  by (induction ys) simp_all

lemma sort_key_pair:
  "sort_key fst (map (\<lambda>y. (f y, y)) ys) = map (\<lambda>y. (f y, y)) (sort_key f ys)"
  by (induction ys) (simp_all add: insort_key_pair)

lemma zip_map_self: "zip (map f xs) xs = map (\<lambda>y. (f y, y)) xs"
  by (induction xs) simp_all

lemma sort_reverse_total: "sort_reverse (\<lambda>r. Inr (f r)) xs = Inr (sort_desc f xs)"
proof -
  let ?g = "\<lambda>y. (f y, y)"
  have "map snd (rev (sort_key fst (rev (map ?g xs)))) = rev (sort_key f (rev xs))"
    unfolding rev_map sort_key_pair by (simp add: comp_def flip: rev_map)
  then show ?thesis
    by (simp add: sort_reverse_def keys_of_total zip_map_self sort_desc_def)
qed

lemma make_group_total: "make_group (total_key ko) tuple = Inr (group_of ko tuple)"
  by (cases ko) (simp_all add: make_group_def total_key_def group_of_def sort_reverse_total)

lemma group_iter_nonpos: "n \<le> 0 \<Longrightarrow> group_iter g n key = Stop"
  by (simp add: group_iter.simps)

lemma group_iter_of_list:
  "0 < n \<Longrightarrow> group_iter (of_list xs) n (total_key ko)
             = of_list (map (group_of ko) (chunks (nat n) xs))"
proof (induction "nat n" xs rule: chunks.induct)
  case (1 xs)
  show ?case
  proof (cases "xs = []")
    case True
    with 1(2) show ?thesis
      by (subst group_iter.simps) (simp add: pull_of_list)
  next
    case False
    with 1 have "group_iter (of_list (drop (nat n) xs)) n (total_key ko)
                 = of_list (map (group_of ko) (chunks (nat n) (drop (nat n) xs)))"
      by simp
    with False 1(2) show ?thesis
      by (subst group_iter.simps) (simp add: pull_of_list make_group_total chunks_nonempty)
  qed
qed

section \<open>Arithmetic, slices and shuffles\<close>

lemma ceil_div_int: "0 < b \<Longrightarrow> - ((- a) div b) = (a + b - 1) div (b::int)"
proof (cases "a mod b = 0")
  case True
  assume b: "0 < b"
  from True have "a + b - 1 = b * (a div b) + (b - 1)"
    using mult_div_mod_eq [of b a] by simp
  with b have "(a + b - 1) div b = a div b"
    by (intro int_div_pos_eq [where r = "b - 1"]) auto
  with True b show ?thesis
    by (simp add: zdiv_zminus1_eq_if)
next
  case False
  assume b: "0 < b"
  then have r: "0 \<le> a mod b" "a mod b < b"
    by simp_all
  have "a + b - 1 = b * (a div b + 1) + (a mod b - 1)"
    using mult_div_mod_eq [of b a] by (simp add: algebra_simps)
  with b r False have "(a + b - 1) div b = a div b + 1"
    by (intro int_div_pos_eq [where r = "a mod b - 1"]) auto
  with False b show ?thesis
    by (simp add: zdiv_zminus1_eq_if)
qed

lemma ceil_div_real: "- ((- a) div b) = \<lceil>real_of_int a / real_of_int b\<rceil>"
  by (simp add: ceiling_divide_eq_div)

lemma py_ceil_div_pos:
  "0 < b \<Longrightarrow> py_ceil_div (int n) (int b) = Inr (int ((n + b - 1) div b))"
proof -
  assume b: "0 < b"
  then have "int ((n + b - 1) div b) = (int n + int b - 1) div int b"
    by (simp add: zdiv_int of_nat_diff)
  with b show ?thesis
    by (simp add: py_ceil_div_def ceil_div_int)
qed

lemma py_slice_nat:
  "py_slice xs (int k) (int k + int b) = take b (drop k xs)"
proof -
  have "nat (int (min (k + b) (length xs)) - int (min k (length xs)))
        = min (k + b) (length xs) - min k (length xs)"
    by (simp only: nat_diff_distrib' of_nat_0_le_iff nat_int)
  then have "py_slice xs (int k) (int k + int b)
             = take (min (k + b) (length xs) - min k (length xs)) (drop (min k (length xs)) xs)"
    by (simp add: py_slice_def Let_def flip: of_nat_add of_nat_min)
  also have "\<dots> = take b (drop k xs)"
    by (cases "k \<le> length xs") (simp_all add: min_def)
  finally show ?thesis .
qed

lemma py_slice_pos:
  "py_slice xs (int b * int i) (int b * (int i + 1)) = take b (drop (b * i) xs)"
  using py_slice_nat [of xs "b * i" b] by (simp add: algebra_simps)

lemma chunks_as_map:
  "0 < b \<Longrightarrow> chunks b xs = map (\<lambda>i. take b (drop (b * i) xs)) [0..<(length xs + b - 1) div b]"
  by (rule nth_equalityI) (simp_all add: length_chunks chunks_nth)

lemma shuffle_identity [simp]: "shuffle [0..<length xs] xs = xs"
  by (simp add: shuffle_def map_nth)

lemma shuffle_upt: "set perm \<subseteq> {0..<m} \<Longrightarrow> shuffle perm (map int [0..<m]) = map int perm"
  by (auto simp: shuffle_def)

lemma mset_shuffle: "mset perm = mset [0..<length xs] \<Longrightarrow> mset (shuffle perm xs) = mset xs"
proof -
  assume "mset perm = mset [0..<length xs]"
  then have "image_mset ((!) xs) (mset perm) = image_mset ((!) xs) (mset [0..<length xs])"
    by (rule arg_cong)
  then have "mset (map ((!) xs) perm) = mset (map ((!) xs) [0..<length xs])"
    by (simp only: mset_map)
  then show ?thesis
    by (simp only: shuffle_def map_nth)
qed

section \<open>The pools of a list\<close>

lemma gen_items_of_list [simp]: "gen_items (of_list xs) = xs"
  by (induction xs) simp_all

lemma gen_fault_of_list [simp]: "gen_fault (of_list xs) = None"
  by (induction xs) simp_all

lemma gen_map_of_list [simp]: "gen_map f (of_list xs) = of_list (map f xs)"
  by (induction xs) simp_all

lemma yield_all_of_list [simp]: "yield_all bs (of_list cs) = of_list (bs @ cs)"
  by (induction bs) simp_all

lemma py_range_int: "py_range (int m) = map int [0..<m]"
  by (simp add: py_range_def)

lemma valid_rnd_set: "valid_rnd rnd \<Longrightarrow> set (rnd k n) = {0..<n}"
  by (metis valid_rnd_def mset_eq_setD set_upt)

lemma valid_rnd_length: "valid_rnd rnd \<Longrightarrow> length (rnd k n) = n"
  by (metis valid_rnd_def mset_eq_length length_upt diff_zero)

lemma valid_identity_rnd: "valid_rnd identity_rnd"
  by (simp add: valid_rnd_def identity_rnd_def)

lemma pool_batches_no_key:
  "0 < b \<Longrightarrow> pool_batches draw (int b) False pool
     = Inr (map (\<lambda>i. take b (drop (b * i) (shuffle (draw (length pool)) pool)))
              [0..<(length pool + b - 1) div b])"
  by (simp add: pool_batches_def py_ceil_div_pos py_range_int py_slice_pos comp_def)

lemma pool_batches_key:
  "0 < b \<Longrightarrow> set (draw ((length pool + b - 1) div b)) \<subseteq> {0..<(length pool + b - 1) div b}
     \<Longrightarrow> pool_batches draw (int b) True pool
         = Inr (map (\<lambda>i. take b (drop (b * i) pool)) (draw ((length pool + b - 1) div b)))"
  by (simp add: pool_batches_def py_ceil_div_pos py_range_int py_slice_pos comp_def shuffle_upt)

lemma pools_loop_of_list:
  assumes "\<And>k pool. pool \<in> set pools \<Longrightarrow> pool_batches (rnd k) B hk pool = Inr (F k pool)"
  shows "pools_loop rnd B hk k0 (of_list pools)
         = of_list (concat (map (\<lambda>j. F (k0 + j) (pools ! j)) [0..<length pools]))"
  using assms
proof (induction pools arbitrary: k0)
  case Nil
  show ?case by simp
next
  case (Cons pool pools)
  have "map (\<lambda>j. F (k0 + j) ((pool # pools) ! j)) [0..<length (pool # pools)]
        = F k0 pool # map (\<lambda>j. F (Suc k0 + j) (pools ! j)) [0..<length pools]"
    by (simp add: upt_conv_Cons map_Suc_upt [symmetric] comp_def del: upt_Suc)
  with Cons show ?case
    by simp
qed

section \<open>PoolingBatcher without a sort key and without shuffling\<close>

lemma ceil_nat_real: "0 < b \<Longrightarrow> nat \<lceil>real n / real b\<rceil> = (n + b - 1) div b"
proof -
  assume b: "0 < b"
  have "\<lceil>real n / real b\<rceil> = \<lceil>real_of_int (int n) / real_of_int (int b)\<rceil>"
    by simp
  also have "\<dots> = - ((- int n) div int b)"
    by (simp only: ceil_div_real)
  also from b have "\<dots> = (int n + int b - 1) div int b"
    by (simp add: ceil_div_int)
  also from b have "\<dots> = int ((n + b - 1) div b)"
    by (simp add: zdiv_int of_nat_diff)
  finally show ?thesis
    by simp
qed

lemma group_iter_of_list_nat:
  "0 < m \<Longrightarrow> group_iter (of_list xs) (int m) (total_key ko)
             = of_list (map (group_of ko) (chunks m xs))"
  using group_iter_of_list [of "int m" xs ko] by simp

lemma pooling_identity_chunks:
  assumes "0 < batch_sizes self stage" and "0 < pool_num_batches self"
  shows "PoolingBatcher_row_batches self identity_rnd (of_list (map Some rows))
           (None :: ('r \<Rightarrow> error + 'k::linorder) option) stage
         = of_list (chunks (nat (batch_sizes self stage)) (rows :: 'r list))"
proof -
  let ?ko = "None :: ('r \<Rightarrow> 'k) option"
  define b where "b = nat (batch_sizes self stage)"
  define p where "p = nat (pool_num_batches self)"
  from assms have b: "0 < b" "batch_sizes self stage = int b"
    and p: "0 < p" "pool_num_batches self = int p"
    by (simp_all add: b_def p_def)
  have size: "batch_sizes self stage * pool_num_batches self = int (b * p)"
    using b p by simp
  have "group_iter (of_list (map Some rows)) (int (b * p)) (total_key ?ko)
        = of_list (map (group_of ?ko) (chunks (b * p) (map Some rows)))"
    by (rule group_iter_of_list_nat) (use b(1) p(1) in simp)
  also have "map (group_of ?ko) (chunks (b * p) (map Some rows)) = chunks (b * p) rows"
    by (simp add: chunks_map group_of_def comp_def)
  finally have pools: "group_iter (of_list (map Some rows)) (int (b * p))
                         (None :: ('r \<Rightarrow> error + 'k) option)
                       = of_list (chunks (b * p) rows)"
    by (simp add: total_key_def)
  have "pools_loop identity_rnd (int b) False 0 (of_list (chunks (b * p) rows))
        = of_list (concat (map (\<lambda>j. chunks b (chunks (b * p) rows ! j))
                            [0..<length (chunks (b * p) rows)]))"
    by (rule pools_loop_of_list)
      (use b(1) in \<open>simp add: pool_batches_no_key identity_rnd_def chunks_as_map\<close>)
  also have "\<dots> = of_list (chunks b rows)"
    using b(1) p(1) by (simp add: map_nth concat_chunks_chunks flip: map_map [unfolded comp_def])
  finally show ?thesis
    using pools by (simp add: PoolingBatcher_row_batches_def Let_def b(2) p(2) flip: of_nat_mult)
qed

lemma chunks_eq_Nil: "0 < b \<Longrightarrow> chunks b xs = [] \<longleftrightarrow> xs = []"
  by (cases "xs = []") (simp_all add: chunks_nonempty)

lemma chunks_length_inner:
  "0 < b \<Longrightarrow> i + 1 < length (chunks b xs) \<Longrightarrow> length (chunks b xs ! i) = b"
proof (induction b xs arbitrary: i rule: chunks.induct)
  case (1 b xs)
  from 1(3) have ne: "xs \<noteq> []" by auto
  with 1(2) have unfold: "chunks b xs = take b xs # chunks b (drop b xs)"
    by (simp add: chunks_nonempty)
  show ?case
  proof (cases i)
    case 0
    with 1(3) unfold have "chunks b (drop b xs) \<noteq> []" by auto
    with 1(2) have "drop b xs \<noteq> []" by (simp add: chunks_eq_Nil)
    with 0 unfold show ?thesis by simp
  next
    case (Suc j)
    with 1 ne unfold show ?thesis by simp
  qed
qed

lemma chunks_length_last:
  "0 < b \<Longrightarrow> xs \<noteq> [] \<Longrightarrow>
     b * (length (chunks b xs) - 1) < length xs \<and>
     length (last (chunks b xs)) = length xs - b * (length (chunks b xs) - 1)"
proof (induction b xs rule: chunks.induct)
  case (1 b xs)
  then have unfold: "chunks b xs = take b xs # chunks b (drop b xs)"
    by (simp add: chunks_nonempty)
  show ?case
  proof (cases "drop b xs = []")
    case True
    with unfold 1(3) show ?thesis by simp
  next
    case False
    with 1 have IH: "b * (length (chunks b (drop b xs)) - 1) < length xs - b"
      "length (last (chunks b (drop b xs))) = length xs - b - b * (length (chunks b (drop b xs)) - 1)"
      by simp_all
    from False 1(2) have ne: "chunks b (drop b xs) \<noteq> []"
      by (simp add: chunks_eq_Nil)
    then have len: "length (chunks b (drop b xs)) = Suc (length (chunks b (drop b xs)) - 1)"
      by (cases "chunks b (drop b xs)") simp_all
    from False have "b < length xs" by simp
    with IH ne len unfold show ?thesis
      by (simp add: algebra_simps)
  qed
qed

text \<open>
  Claim C1, as amended.  A PoolingBatcher with a positive batch size \<open>B\<close> of the
  stage and a positive stored number of batches per pool (what the constructor stores
  for every configured number that is positive, zero or unset), called without a sort
  key on \<open>N\<close> rows, the pool shuffle being the identity: it raises nothing and emits \<open>\<lceil>N / B\<rceil>\<close> batches;
  every batch but the last has \<open>B\<close> rows, the last has \<open>N - B * (\<lceil>N / B\<rceil> - 1)\<close>
  rows; the rows of the batches, concatenated in the order of emission, are the
  input; and what \<^verbatim>\<open>batchify\<close> yields is the columnar form of these batches.
\<close>

theorem pooling_identity_batches:
  fixes rows :: "('f, 'v) row list"
  assumes "0 < batch_sizes self stage" and "0 < pool_num_batches self"
  shows "let B = nat (batch_sizes self stage);
             N = length rows;
             g = PoolingBatcher_row_batches self identity_rnd (of_list (map Some rows))
                   (None :: (('f, 'v) row \<Rightarrow> error + 'k::linorder) option) stage;
             bs = gen_items g
         in gen_fault g = None \<and>
            length bs = nat \<lceil>real N / real B\<rceil> \<and>
            (\<forall>i. i + 1 < length bs \<longrightarrow> length (bs ! i) = B) \<and>
            (bs \<noteq> [] \<longrightarrow> int (length (last bs)) = int N - int B * (int (length bs) - 1)) \<and>
            concat bs = rows \<and>
            PoolingBatcher_batchify self identity_rnd (of_list (map Some rows))
              (None :: (('f, 'v) row \<Rightarrow> error + 'k) option) stage
              = of_list (map zip_dicts bs)"
proof -
  define b where "b = nat (batch_sizes self stage)"
  from assms have b: "0 < b" by (simp add: b_def)
  have g: "PoolingBatcher_row_batches self identity_rnd (of_list (map Some rows))
             (None :: (('f, 'v) row \<Rightarrow> error + 'k) option) stage = of_list (chunks b rows)"
    unfolding b_def using assms by (rule pooling_identity_chunks)
  have last: "int (length (last (chunks b rows)))
              = int (length rows) - int b * (int (length (chunks b rows)) - 1)"
    if "chunks b rows \<noteq> []"
  proof -
    from that b have ne: "rows \<noteq> []"
      by (simp add: chunks_eq_Nil)
    from that have one: "int (length (chunks b rows)) - 1 = int (length (chunks b rows) - 1)"
      by (cases "chunks b rows") simp_all
    from chunks_length_last [OF b ne]
    have lt: "b * (length (chunks b rows) - 1) \<le> length rows"
      and eq: "length (last (chunks b rows)) = length rows - b * (length (chunks b rows) - 1)"
      by simp_all
    from lt have "int (length rows - b * (length (chunks b rows) - 1))
                  = int (length rows) - int (b * (length (chunks b rows) - 1))"
      by (rule of_nat_diff)
    then show ?thesis
      unfolding eq one by (simp only: of_nat_mult)
  qed
  have count: "length (chunks b rows) = nat \<lceil>real (length rows) / real b\<rceil>"
    using b by (simp only: length_chunks ceil_nat_real)
  have zipped: "PoolingBatcher_batchify self identity_rnd (of_list (map Some rows))
              (None :: (('f, 'v) row \<Rightarrow> error + 'k) option) stage
              = of_list (map zip_dicts (chunks b rows))"
    by (simp only: PoolingBatcher_batchify_def g gen_map_of_list)
  show ?thesis
    unfolding Let_def b_def [symmetric] g gen_items_of_list gen_fault_of_list
  proof (intro conjI allI impI)
    show "None = (None :: error option)"
      by (rule refl)
    show "length (chunks b rows) = nat \<lceil>real (length rows) / real b\<rceil>"
      by (rule count)
    show "length (chunks b rows ! i) = b" if "i + 1 < length (chunks b rows)" for i
      using b that by (rule chunks_length_inner)
    show "int (length (last (chunks b rows)))
          = int (length rows) - int b * (int (length (chunks b rows)) - 1)"
      if "chunks b rows \<noteq> []"
      using that by (rule last)
    show "concat (chunks b rows) = rows"
      using b by (rule concat_chunks)
    show "PoolingBatcher_batchify self identity_rnd (of_list (map Some rows))
              (None :: (('f, 'v) row \<Rightarrow> error + 'k) option) stage
              = of_list (map zip_dicts (chunks b rows))"
      by (rule zipped)
  qed
qed

text \<open>
  The scenario of the specification: five rows, batch size 2, the default pool of
  10000 batches.
\<close>

theorem pooling_identity_batches_witness:
  "gen_fault (PoolingBatcher_row_batches
       \<lparr>train_batch_size = 2, eval_batch_size = 16, test_batch_size = 16, pool_num_batches = 10000\<rparr>
       identity_rnd
       (of_list (map Some [[''a'' \<mapsto> 1::int], [''a'' \<mapsto> 2], [''a'' \<mapsto> 3], [''a'' \<mapsto> 4], [''a'' \<mapsto> 5]]))
       (None :: ((string, int) row \<Rightarrow> error + int) option) TRAIN) = None \<and>
   PoolingBatcher_batchify
       \<lparr>train_batch_size = 2, eval_batch_size = 16, test_batch_size = 16, pool_num_batches = 10000\<rparr>
       identity_rnd
       (of_list (map Some [[''a'' \<mapsto> 1::int], [''a'' \<mapsto> 2], [''a'' \<mapsto> 3], [''a'' \<mapsto> 4], [''a'' \<mapsto> 5]]))
       (None :: ((string, int) row \<Rightarrow> error + int) option) TRAIN
     = of_list [[''a'' \<mapsto> [Some 1, Some 2]], [''a'' \<mapsto> [Some 3, Some 4]], [''a'' \<mapsto> [Some 5]]]"
proof -
  let ?self = "\<lparr>train_batch_size = 2, eval_batch_size = 16, test_batch_size = 16,
                 pool_num_batches = 10000\<rparr>"
  let ?rows = "[[''a'' \<mapsto> 1::int], [''a'' \<mapsto> 2], [''a'' \<mapsto> 3], [''a'' \<mapsto> 4], [''a'' \<mapsto> 5]]"
  let ?g = "PoolingBatcher_row_batches ?self identity_rnd (of_list (map Some ?rows))
              (None :: ((string, int) row \<Rightarrow> error + int) option) TRAIN"
  have pre: "0 < batch_sizes ?self TRAIN" "0 < pool_num_batches ?self"
    by (simp_all add: batch_sizes_def)
  note inst = pooling_identity_batches [OF pre, of ?rows, where 'k = int, unfolded Let_def]
  have B: "nat (batch_sizes ?self TRAIN) = 2"
    by (simp add: batch_sizes_def)
  from inst have fault: "gen_fault ?g = None"
    and len: "length (gen_items ?g) = nat \<lceil>real (length ?rows) / real (nat (batch_sizes ?self TRAIN))\<rceil>"
    and inner: "\<forall>i. i + 1 < length (gen_items ?g) \<longrightarrow> length (gen_items ?g ! i) = nat (batch_sizes ?self TRAIN)"
    and cat: "concat (gen_items ?g) = ?rows"
    and zipped: "PoolingBatcher_batchify ?self identity_rnd (of_list (map Some ?rows))
              (None :: ((string, int) row \<Rightarrow> error + int) option) TRAIN
              = of_list (map zip_dicts (gen_items ?g))"
    by blast+
  from len B have len3: "length (gen_items ?g) = 3"
    by simp
  then obtain x y z where xyz: "gen_items ?g = [x, y, z]"
    by (auto simp: length_Suc_conv numeral_3_eq_3)
  from inner len3 B have "length (gen_items ?g ! 0) = 2" "length (gen_items ?g ! 1) = 2"
    by simp_all
  with xyz have "length x = 2" "length y = 2"
    by simp_all
  with cat xyz have "x = [[''a'' \<mapsto> 1], [''a'' \<mapsto> 2]]" "y = [[''a'' \<mapsto> 3], [''a'' \<mapsto> 4]]"
    "z = [[''a'' \<mapsto> 5]]"
    by (auto simp: length_Suc_conv numeral_2_eq_2)
  with xyz have items: "gen_items ?g = [[[''a'' \<mapsto> 1], [''a'' \<mapsto> 2]], [[''a'' \<mapsto> 3], [''a'' \<mapsto> 4]],
      [[''a'' \<mapsto> 5]]]"
    by (simp only:)
  have cols: "zip_dicts [[''a'' \<mapsto> 1::int], [''a'' \<mapsto> 2]] = [''a'' \<mapsto> [Some 1, Some 2]]"
    "zip_dicts [[''a'' \<mapsto> 3::int], [''a'' \<mapsto> 4]] = [''a'' \<mapsto> [Some 3, Some 4]]"
    "zip_dicts [[''a'' \<mapsto> 5::int]] = [''a'' \<mapsto> [Some 5]]"
    by (rule ext, simp add: zip_dicts_apply in_all_keys)+
  have "map zip_dicts [[[''a'' \<mapsto> 1::int], [''a'' \<mapsto> 2]], [[''a'' \<mapsto> 3], [''a'' \<mapsto> 4]],
      [[''a'' \<mapsto> 5]]] = [[''a'' \<mapsto> [Some 1, Some 2]], [''a'' \<mapsto> [Some 3, Some 4]], [''a'' \<mapsto> [Some 5]]]"
    by (simp only: list.map cols)
  with zipped items have "PoolingBatcher_batchify ?self identity_rnd (of_list (map Some ?rows))
              (None :: ((string, int) row \<Rightarrow> error + int) option) TRAIN
     = of_list [[''a'' \<mapsto> [Some 1, Some 2]], [''a'' \<mapsto> [Some 3, Some 4]], [''a'' \<mapsto> [Some 5]]]"
    by (simp only:)
  with fault show ?thesis
    by (rule conjI)
qed

text \<open>
  Claim C1 as it is written, for every PoolingBatcher with a batch size \<open>B > 0\<close>, fails
  where the configured number of batches per pool is negative: the constructor keeps
  \<open>- 1\<close>, the pool size is \<open>2 * (- 1)\<close>, and \<^verbatim>\<open>_group_iter\<close> makes no group of a
  group size below one, so that of five rows no batch is emitted, not the three of
  the claim.
\<close>

theorem pooling_negative_pool_counterexample:
  "PoolingBatcher_init 2 16 16 (Some (- 1))
     = Inr \<lparr>train_batch_size = 2, eval_batch_size = 16, test_batch_size = 16,
            pool_num_batches = - 1\<rparr> \<and>
   gen_items (PoolingBatcher_row_batches
       \<lparr>train_batch_size = 2, eval_batch_size = 16, test_batch_size = 16, pool_num_batches = - 1\<rparr>
       identity_rnd
       (of_list (map Some [[''a'' \<mapsto> 1::int], [''a'' \<mapsto> 2], [''a'' \<mapsto> 3], [''a'' \<mapsto> 4], [''a'' \<mapsto> 5]]))
       (None :: ((string, int) row \<Rightarrow> error + int) option) TRAIN) = [] \<and>
   nat \<lceil>real (length [[''a'' \<mapsto> 1::int], [''a'' \<mapsto> 2], [''a'' \<mapsto> 3], [''a'' \<mapsto> 4], [''a'' \<mapsto> 5]])
          / real (nat 2)\<rceil> = 3"
  by (simp add: PoolingBatcher_init_def PoolingBatcher_row_batches_def batch_sizes_def
      group_iter_nonpos)

section \<open>Multisets of rows\<close>

lemma mset_sort_desc [simp]: "mset (sort_desc f xs) = mset xs"
  by (simp add: sort_desc_def)

lemma length_sort_desc [simp]: "length (sort_desc f xs) = length xs"
  by (simp add: sort_desc_def)


lemma mset_concat_cong:
  "(\<And>x. x \<in> set xs \<Longrightarrow> mset (f x) = mset (g x))
     \<Longrightarrow> mset (concat (map f xs)) = mset (concat (map g xs))"
  by (induction xs) simp_all

lemma mset_concat_map_perm:
  "mset xs = mset ys \<Longrightarrow> mset (concat (map f xs)) = mset (concat (map f ys))"
proof -
  assume "mset xs = mset ys"
  then have "image_mset (\<lambda>x. mset (f x)) (mset xs) = image_mset (\<lambda>x. mset (f x)) (mset ys)"
    by (rule arg_cong)
  then have "sum_mset (mset (map (\<lambda>x. mset (f x)) xs)) = sum_mset (mset (map (\<lambda>x. mset (f x)) ys))"
    by (simp only: mset_map)
  then show ?thesis
    by (simp only: mset_concat sum_mset_sum_list map_map comp_def)
qed

lemma map_filter_app:
  "List.map_filter f (xs @ ys) = List.map_filter f xs @ List.map_filter f ys"
  by (induction xs) (simp_all add: List.map_filter_simps split: option.splits)

lemma mset_group_of: "mset (group_of ko c) = mset (List.map_filter (\<lambda>ex. ex) c)"
  by (cases ko) (simp_all add: group_of_def)

lemma mset_map_filter_concat:
  "mset (concat (map (group_of ko) cs)) = mset (List.map_filter (\<lambda>ex. ex) (concat cs))"
proof (induction cs)
  case Nil
  show ?case by (simp add: List.map_filter_simps)
next
  case (Cons c cs)
  then show ?case
    by (simp add: map_filter_app mset_group_of)
qed

section \<open>PoolingBatcher with a sort key\<close>







section \<open>The rows that a batcher emits\<close>

lemma group_iter_of_list_all:
  "group_iter (of_list xs) n (total_key ko) = of_list (map (group_of ko) (chunks (nat n) xs))"
proof (cases "0 < n")
  case True
  then show ?thesis by (rule group_iter_of_list)
next
  case False
  then show ?thesis by (simp add: group_iter_nonpos)
qed

lemma length_shuffle [simp]: "length (shuffle perm xs) = length perm"
  by (simp add: shuffle_def)

lemma pool_batches_mset:
  assumes "0 < b" and "valid_rnd rnd"
  shows "\<exists>bs. pool_batches (rnd k) (int b) has_key pool = Inr bs \<and> mset (concat bs) = mset pool"
proof (cases has_key)
  case True
  let ?m = "(length pool + b - 1) div b"
  have "pool_batches (rnd k) (int b) True pool
        = Inr (map (\<lambda>i. take b (drop (b * i) pool)) (rnd k ?m))"
    using assms by (intro pool_batches_key) (simp_all add: valid_rnd_set)
  moreover have "mset (concat (map (\<lambda>i. take b (drop (b * i) pool)) (rnd k ?m)))
                 = mset (concat (map (\<lambda>i. take b (drop (b * i) pool)) [0..<?m]))"
    using assms(2) by (intro mset_concat_map_perm) (simp only: valid_rnd_def)
  moreover have "concat (map (\<lambda>i. take b (drop (b * i) pool)) [0..<?m]) = pool"
    using assms(1) concat_chunks [of b pool] by (simp only: chunks_as_map)
  ultimately show ?thesis
    using True by simp
next
  case False
  let ?pool = "shuffle (rnd k (length pool)) pool"
  from assms(2) have len: "length ?pool = length pool"
    by (simp add: valid_rnd_length)
  have "pool_batches (rnd k) (int b) False pool
        = Inr (map (\<lambda>i. take b (drop (b * i) ?pool)) [0..<(length pool + b - 1) div b])"
    using assms(1) by (rule pool_batches_no_key)
  also have "map (\<lambda>i. take b (drop (b * i) ?pool)) [0..<(length pool + b - 1) div b] = chunks b ?pool"
    using assms(1) chunks_as_map [of b ?pool] by (simp only: len)
  finally have "pool_batches (rnd k) (int b) False pool = Inr (chunks b ?pool)" .
  moreover have "mset (concat (chunks b ?pool)) = mset pool"
    using assms by (simp add: concat_chunks mset_shuffle valid_rnd_def)
  ultimately show ?thesis
    using False by simp
qed

lemma pools_loop_mset:
  assumes "0 < b" and "valid_rnd rnd"
  shows "\<exists>bs. pools_loop rnd (int b) has_key k (of_list pools) = of_list bs \<and>
              mset (concat bs) = mset (concat pools)"
proof (induction pools arbitrary: k)
  case Nil
  show ?case by (rule exI [of _ "[]"]) simp
next
  case (Cons pool pools)
  from pool_batches_mset [OF assms, of k has_key pool]
  obtain bs where bs: "pool_batches (rnd k) (int b) has_key pool = Inr bs"
    "mset (concat bs) = mset pool"
    by blast
  from Cons [of "Suc k"]
  obtain cs where cs: "pools_loop rnd (int b) has_key (Suc k) (of_list pools) = of_list cs"
    "mset (concat cs) = mset (concat pools)"
    by blast
  from bs cs have "pools_loop rnd (int b) has_key k (of_list (pool # pools)) = of_list (bs @ cs)"
    "mset (concat (bs @ cs)) = mset (concat (pool # pools))"
    by simp_all
  then show ?case
    by blast
qed

lemma pooling_rows_mset:
  fixes xs :: "'r option list" and ko :: "('r \<Rightarrow> 'k::linorder) option"
  assumes "0 < batch_sizes self stage" and "0 < pool_num_batches self" and "valid_rnd rnd"
  shows "\<exists>bs. PoolingBatcher_row_batches self rnd (of_list xs) (total_key ko) stage = of_list bs \<and>
              mset (concat bs) = mset (List.map_filter (\<lambda>ex. ex) xs)"
proof -
  define b where "b = nat (batch_sizes self stage)"
  define p where "p = nat (pool_num_batches self)"
  from assms have b: "0 < b" "batch_sizes self stage = int b"
    and p: "0 < p" "pool_num_batches self = int p"
    by (simp_all add: b_def p_def)
  have grouped: "group_iter (of_list xs) (int (b * p)) (total_key ko)
                 = of_list (map (group_of ko) (chunks (b * p) xs))"
    by (rule group_iter_of_list_nat) (use b(1) p(1) in simp)
  from pools_loop_mset [OF b(1) assms(3), of "total_key ko \<noteq> None" 0
      "map (group_of ko) (chunks (b * p) xs)"]
  obtain bs where bs: "pools_loop rnd (int b) (total_key ko \<noteq> None) 0
                         (of_list (map (group_of ko) (chunks (b * p) xs))) = of_list bs"
    "mset (concat bs) = mset (concat (map (group_of ko) (chunks (b * p) xs)))"
    by blast
  from b(1) p(1) have "concat (chunks (b * p) xs) = xs"
    by (intro concat_chunks) simp
  with bs(2) have "mset (concat bs) = mset (List.map_filter (\<lambda>ex. ex) xs)"
    by (simp only: mset_map_filter_concat)
  moreover from grouped bs(1)
  have "PoolingBatcher_row_batches self rnd (of_list xs) (total_key ko) stage = of_list bs"
    by (simp add: PoolingBatcher_row_batches_def Let_def b(2) p(2) flip: of_nat_mult)
  ultimately show ?thesis
    by blast
qed

text \<open>
  Claim C10.  \<^verbatim>\<open>_group_iter\<close> cuts its input into tuples of \<open>group_size\<close> consecutive
  elements and makes of every tuple the group of its elements that are not
  \<^verbatim>\<open>None\<close>, in their order (sorted by descending key when there is a sort key): no
  \<^verbatim>\<open>None\<close> is in a group, and a group is shorter than its tuple by the number of
  \<^verbatim>\<open>None\<close> elements of the tuple.  So of \<^verbatim>\<open>[None, None, r, None, r']\<close> and
  the group size 2 the groups are \<open>[]\<close>, \<open>[r]\<close> and \<open>[r']\<close>: the first is empty, the
  second is not the last and has fewer than two rows.  \<^verbatim>\<open>Batcher.batchify\<close> yields the
  columnar form of these groups, and the batches of \<^verbatim>\<open>PoolingBatcher.batchify\<close> (for a
  positive batch size and pool size) hold, between them, the elements of the input
  that are not \<^verbatim>\<open>None\<close>, and nothing else.
\<close>

theorem group_iter_drops_None:
  fixes xs :: "'r option list" and f :: "'r \<Rightarrow> 'k::linorder"
    and ds :: "('f, 'v) row option list"
  shows
   "let tuples = chunks (nat group_size) xs;
        g = group_iter (of_list xs) group_size (None :: ('r \<Rightarrow> error + 'k) option);
        g' = group_iter (of_list xs) group_size (Some (\<lambda>r. Inr (f r)))
    in gen_fault g = None \<and> gen_fault g' = None \<and>
       (0 < group_size \<longrightarrow> concat tuples = xs) \<and>
       map (map Some) (gen_items g) = map (filter (\<lambda>ex. ex \<noteq> None)) tuples \<and>
       gen_items g' = map (sort_desc f) (gen_items g) \<and>
       gen_items (group_iter (of_list [None, None, Some r, None, Some r']) 2
                    (None :: ('r \<Rightarrow> error + 'k) option)) = [[], [r], [r']] \<and>
       Batcher_batchify bself (of_list ds) (None :: (('f, 'v) row \<Rightarrow> error + 'k) option) stage
         = of_list (map (\<lambda>t. zip_dicts (List.map_filter (\<lambda>ex. ex) t))
                        (chunks (nat (batch_sizes bself stage)) ds)) \<and>
       (0 < batch_sizes pself stage \<and> 0 < pool_num_batches pself \<and> valid_rnd rnd \<longrightarrow>
          (\<exists>bs. PoolingBatcher_row_batches pself rnd (of_list xs)
                  (None :: ('r \<Rightarrow> error + 'k) option) stage = of_list bs \<and>
                mset (concat bs) = mset (List.map_filter (\<lambda>ex. ex) xs)))"
proof -
  let ?none = "None :: ('r \<Rightarrow> 'k) option"
  have g: "group_iter (of_list ys) n (None :: ('r \<Rightarrow> error + 'k) option)
           = of_list (map (List.map_filter (\<lambda>ex. ex)) (chunks (nat n) ys))" for ys n
    using group_iter_of_list_all [of ys n ?none]
    by (simp add: total_key_def group_of_def [abs_def])
  have g': "group_iter (of_list xs) group_size (Some (\<lambda>r. Inr (f r)))
           = of_list (map (\<lambda>t. sort_desc f (List.map_filter (\<lambda>ex. ex) t)) (chunks (nat group_size) xs))"
    using group_iter_of_list_all [of xs group_size "Some f"]
    by (simp add: total_key_def group_of_def [abs_def])
  have example: "gen_items (group_iter (of_list [None, None, Some r, None, Some r']) 2
                    (None :: ('r \<Rightarrow> error + 'k) option)) = [[], [r], [r']]"
    unfolding g by (simp add: chunks_nonempty List.map_filter_simps)
  have cat: "concat (chunks (nat group_size) xs) = xs" if "0 < group_size"
    using that by (intro concat_chunks) simp
  have plain: "Batcher_batchify bself (of_list ds) (None :: (('f, 'v) row \<Rightarrow> error + 'k) option) stage
         = of_list (map (\<lambda>t. zip_dicts (List.map_filter (\<lambda>ex. ex) t))
                        (chunks (nat (batch_sizes bself stage)) ds))"
    using group_iter_of_list_all [of ds "batch_sizes bself stage" "None :: (('f, 'v) row \<Rightarrow> 'k) option"]
    by (simp add: Batcher_batchify_def Batcher_row_batches_def total_key_def group_of_def [abs_def]
        comp_def)
  have pooling: "\<exists>bs. PoolingBatcher_row_batches pself rnd (of_list xs)
                  (None :: ('r \<Rightarrow> error + 'k) option) stage = of_list bs \<and>
                mset (concat bs) = mset (List.map_filter (\<lambda>ex. ex) xs)"
    if "0 < batch_sizes pself stage \<and> 0 < pool_num_batches pself \<and> valid_rnd rnd"
    using that pooling_rows_mset [of pself stage rnd xs ?none]
    by (simp add: total_key_def)
  have filtered: "map (map Some) (map (List.map_filter (\<lambda>ex. ex)) (chunks (nat group_size) xs))
                  = map (filter (\<lambda>ex. ex \<noteq> None)) (chunks (nat group_size) xs)"
    by (simp add: map_filter_as_filter)
  show ?thesis
    unfolding Let_def g g' gen_items_of_list gen_fault_of_list
    using example cat plain pooling filtered
    by (simp only: simp_thms map_map comp_def g gen_items_of_list) blast
qed

text \<open>
  A Batcher with batch size 2 on two \<^verbatim>\<open>None\<close> elements, a row, and a \<^verbatim>\<open>None\<close>: the
  first batch is the empty dictionary, the columnar form of no rows, and the second
  has the one row.  A PoolingBatcher with pools of two batches emits the one row.
\<close>

theorem group_iter_drops_None_witness:
  "Batcher_batchify
       \<lparr>train_batch_size = 2, eval_batch_size = 16, test_batch_size = 16\<rparr>
       (of_list [None, None, Some [''a'' \<mapsto> 1::int], None])
       (None :: ((string, int) row \<Rightarrow> error + int) option) TRAIN
     = of_list [Map.empty, [''a'' \<mapsto> [Some 1]]] \<and>
   mset (concat (gen_items (PoolingBatcher_row_batches
       \<lparr>train_batch_size = 2, eval_batch_size = 16, test_batch_size = 16, pool_num_batches = 2\<rparr>
       identity_rnd
       (of_list [None, None, Some [''a'' \<mapsto> 1::int], None])
       (None :: ((string, int) row \<Rightarrow> error + int) option) TRAIN)))
     = {#[''a'' \<mapsto> 1::int]#}"
proof -
  let ?xs = "[None, None, Some [''a'' \<mapsto> 1::int], None]"
  let ?b = "\<lparr>train_batch_size = 2, eval_batch_size = 16, test_batch_size = 16\<rparr>"
  let ?p = "\<lparr>train_batch_size = 2, eval_batch_size = 16, test_batch_size = 16,
              pool_num_batches = 2\<rparr>"
  note inst = group_iter_drops_None [of 2 ?xs "\<lambda>r. 0 :: int" "[''a'' \<mapsto> 1]" "[''a'' \<mapsto> 1]"
      ?b ?xs TRAIN ?p identity_rnd, unfolded Let_def]
  have tuples: "chunks (nat (batch_sizes ?b TRAIN)) ?xs
                = [[None, None], [Some [''a'' \<mapsto> 1::int], None]]"
    by (simp add: batch_sizes_def chunks_nonempty)
  have cols: "zip_dicts ([] :: (string, int) row list) = Map.empty"
    "zip_dicts [[''a'' \<mapsto> 1::int]] = [''a'' \<mapsto> [Some 1]]"
    by (rule ext, simp add: zip_dicts_apply in_all_keys)+
  from inst have "Batcher_batchify ?b (of_list ?xs)
         (None :: ((string, int) row \<Rightarrow> error + int) option) TRAIN
         = of_list (map (\<lambda>t. zip_dicts (List.map_filter (\<lambda>ex. ex) t))
                        (chunks (nat (batch_sizes ?b TRAIN)) ?xs))"
    by blast
  then have plain: "Batcher_batchify ?b (of_list ?xs)
         (None :: ((string, int) row \<Rightarrow> error + int) option) TRAIN
         = of_list [Map.empty, [''a'' \<mapsto> [Some 1]]]"
    unfolding tuples by (simp add: List.map_filter_simps cols)
  have pre: "0 < batch_sizes ?p TRAIN \<and> 0 < pool_num_batches ?p \<and> valid_rnd identity_rnd"
    by (simp add: batch_sizes_def valid_identity_rnd)
  with inst obtain bs where bs: "PoolingBatcher_row_batches ?p identity_rnd (of_list ?xs)
                  (None :: ((string, int) row \<Rightarrow> error + int) option) TRAIN = of_list bs"
    "mset (concat bs) = mset (List.map_filter (\<lambda>ex. ex) ?xs)"
    by blast
  then have "mset (concat (gen_items (PoolingBatcher_row_batches ?p identity_rnd (of_list ?xs)
                  (None :: ((string, int) row \<Rightarrow> error + int) option) TRAIN)))
             = {#[''a'' \<mapsto> 1::int]#}"
    by (simp add: List.map_filter_simps)
  with plain show ?thesis
    by (rule conjI)
qed

section \<open>Construction of the batchers\<close>




section \<open>Batch sizes of zero or less\<close>

lemma pool_batches_negative:
  assumes "batch_size < 0" and "valid_rnd rnd"
  shows "pool_batches (rnd k) batch_size has_key pool = Inr []"
proof -
  from assms(1) have "0 \<le> (- int (length pool)) div batch_size"
    by (simp add: neg_imp_zdiv_nonneg_iff)
  then have "py_range (- ((- int (length pool)) div batch_size)) = []"
    by (simp add: py_range_def)
  moreover from assms(2) have "rnd k 0 = []"
    using valid_rnd_length [of rnd k 0] by simp
  ultimately show ?thesis
    using assms(1) by (simp add: pool_batches_def py_ceil_div_def Let_def shuffle_def)
qed

lemma pools_loop_negative:
  assumes "batch_size < 0" and "valid_rnd rnd"
  shows "gen_items (pools_loop rnd batch_size has_key k g) = [] \<and>
         gen_fault (pools_loop rnd batch_size has_key k g) = gen_fault g"
  by (induction g arbitrary: k) (simp_all add: pool_batches_negative [OF assms])

lemma gen_items_map [simp]: "gen_items (gen_map f g) = map f (gen_items g)"
  by (induction g) simp_all

lemma gen_fault_map [simp]: "gen_fault (gen_map f g) = gen_fault g"
  by (induction g) simp_all

lemma gen_no_items: "gen_items g = [] \<Longrightarrow> gen_fault g = None \<Longrightarrow> g = Stop"
  by (cases g) simp_all

lemma pooling_nonpos_batch_gen:
  assumes "batch_sizes self stage \<le> 0" and "valid_rnd rnd"
  shows "gen_items (PoolingBatcher_row_batches self rnd g key stage) = [] \<and>
         gen_fault (PoolingBatcher_row_batches self rnd g key stage)
           = gen_fault (group_iter g (batch_sizes self stage * pool_num_batches self) key)"
proof (cases "batch_sizes self stage = 0")
  case True
  then show ?thesis
    by (simp add: PoolingBatcher_row_batches_def Let_def group_iter_nonpos)
next
  case False
  with assms(1) have "batch_sizes self stage < 0"
    by simp
  from pools_loop_negative [OF this assms(2)] show ?thesis
    by (simp add: PoolingBatcher_row_batches_def Let_def)
qed

text \<open>
  Claim C7, as amended.  The constructors of Batcher and PoolingBatcher accept every
  batch size and report no error.  With a batch size of the stage that is zero or
  negative, \<^verbatim>\<open>Batcher.batchify\<close> yields nothing and ends at once; so does
  \<^verbatim>\<open>PoolingBatcher.batchify\<close> on a list of rows with a sort key that does not fail,
  and on any input it emits no batch and ends the way the reading of the pools ends:
  the division of \<^verbatim>\<open>len(pool)\<close> by the batch size is reached for a negative batch
  size only, so that there is no division fault.
\<close>

theorem nonpositive_batch_size_no_batches:
  fixes g :: "('f, 'v) row option gen" and key :: "(('f, 'v) row \<Rightarrow> error + 'k::linorder) option"
    and xs :: "('f, 'v) row option list" and ko :: "(('f, 'v) row \<Rightarrow> 'k) option"
  shows "\<exists>b p. Batcher_init train_bs eval_bs test_bs = Inr b \<and>
           PoolingBatcher_init train_bs eval_bs test_bs pool_nb = Inr p \<and>
           batch_sizes b TRAIN = train_bs \<and> batch_sizes b EVAL = eval_bs \<and>
           batch_sizes b TEST = test_bs \<and>
           batch_sizes p TRAIN = train_bs \<and> batch_sizes p EVAL = eval_bs \<and>
           batch_sizes p TEST = test_bs \<and>
           (\<forall>stage. batch_sizes b stage \<le> 0 \<longrightarrow> Batcher_batchify b g key stage = Stop) \<and>
           (\<forall>stage. batch_sizes p stage \<le> 0 \<and> valid_rnd rnd \<longrightarrow>
              gen_items (PoolingBatcher_batchify p rnd g key stage) = [] \<and>
              gen_fault (PoolingBatcher_batchify p rnd g key stage)
                = gen_fault (group_iter g (batch_sizes p stage * pool_num_batches p) key) \<and>
              PoolingBatcher_batchify p rnd (of_list xs) (total_key ko) stage = Stop)"
proof -
  let ?b = "\<lparr>train_batch_size = train_bs, eval_batch_size = eval_bs, test_batch_size = test_bs\<rparr>"
  let ?p = "\<lparr>train_batch_size = train_bs, eval_batch_size = eval_bs, test_batch_size = test_bs,
        pool_num_batches = (case pool_nb of None \<Rightarrow> 1 | Some n \<Rightarrow> if n = 0 then 1 else n)\<rparr>"
  have plain: "Batcher_batchify ?b g key stage = Stop" if "batch_sizes ?b stage \<le> 0" for stage
    using that by (simp add: Batcher_batchify_def Batcher_row_batches_def group_iter_nonpos)
  have pooling: "gen_items (PoolingBatcher_batchify ?p rnd g key stage) = [] \<and>
              gen_fault (PoolingBatcher_batchify ?p rnd g key stage)
                = gen_fault (group_iter g (batch_sizes ?p stage * pool_num_batches ?p) key) \<and>
              PoolingBatcher_batchify ?p rnd (of_list xs) (total_key ko) stage = Stop"
    if "batch_sizes ?p stage \<le> 0 \<and> valid_rnd rnd" for stage
  proof -
    from that have pre: "batch_sizes ?p stage \<le> 0" "valid_rnd rnd"
      by simp_all
    note any = pooling_nonpos_batch_gen [OF pre, of g key]
    note list = pooling_nonpos_batch_gen [OF pre, of "of_list xs" "total_key ko"]
    have "gen_fault (group_iter (of_list xs) (batch_sizes ?p stage * pool_num_batches ?p)
            (total_key ko)) = None"
      by (simp only: group_iter_of_list_all gen_fault_of_list)
    with list have "PoolingBatcher_row_batches ?p rnd (of_list xs) (total_key ko) stage = Stop"
      by (intro gen_no_items) simp_all
    with any show ?thesis
      by (simp add: PoolingBatcher_batchify_def)
  qed
  show ?thesis
  proof (rule exI [of _ ?b], rule exI [of _ ?p], intro conjI allI impI)
    show "Batcher_batchify ?b g key stage = Stop" if "batch_sizes ?b stage \<le> 0" for stage
      using that by (rule plain)
    show "gen_items (PoolingBatcher_batchify ?p rnd g key stage) = []"
      "gen_fault (PoolingBatcher_batchify ?p rnd g key stage)
        = gen_fault (group_iter g (batch_sizes ?p stage * pool_num_batches ?p) key)"
      "PoolingBatcher_batchify ?p rnd (of_list xs) (total_key ko) stage = Stop"
      if "batch_sizes ?p stage \<le> 0 \<and> valid_rnd rnd" for stage
      using pooling [OF that] by simp_all
  qed (simp_all add: Batcher_init_def PoolingBatcher_init_def batch_sizes_def)
qed

text \<open>
  Batch size 0 with the default pool, and batch size \<open>- 2\<close> with \<open>- 3\<close> batches per
  pool, where the pool size is 6 and the pools are read: three rows, and no batch.
\<close>

theorem nonpositive_batch_size_no_batches_witness:
  "Batcher_batchify \<lparr>train_batch_size = 0, eval_batch_size = 16, test_batch_size = 16\<rparr>
       (of_list [Some [''a'' \<mapsto> 1::int], Some [''a'' \<mapsto> 2], Some [''a'' \<mapsto> 3]])
       (None :: ((string, int) row \<Rightarrow> error + int) option) TRAIN = Stop \<and>
   PoolingBatcher_batchify
       \<lparr>train_batch_size = - 2, eval_batch_size = 16, test_batch_size = 16, pool_num_batches = - 3\<rparr>
       identity_rnd
       (of_list [Some [''a'' \<mapsto> 1::int], Some [''a'' \<mapsto> 2], Some [''a'' \<mapsto> 3]])
       (None :: ((string, int) row \<Rightarrow> error + int) option) TRAIN = Stop"
proof -
  let ?xs = "[Some [''a'' \<mapsto> 1::int], Some [''a'' \<mapsto> 2], Some [''a'' \<mapsto> 3]]"
  let ?none = "None :: ((string, int) row \<Rightarrow> error + int) option"
  let ?b = "\<lparr>train_batch_size = 0, eval_batch_size = 16, test_batch_size = 16\<rparr>"
  let ?p = "\<lparr>train_batch_size = - 2, eval_batch_size = 16, test_batch_size = 16,
              pool_num_batches = - 3\<rparr>"
  from nonpositive_batch_size_no_batches [of 0 16 16 None "of_list ?xs" ?none identity_rnd ?xs
      "None :: ((string, int) row \<Rightarrow> int) option"]
  obtain b where b: "Batcher_init 0 16 16 = Inr b"
    "\<forall>stage. batch_sizes b stage \<le> 0 \<longrightarrow> Batcher_batchify b (of_list ?xs) ?none stage = Stop"
    by blast
  from b(1) have "b = ?b"
    by (simp add: Batcher_init_def)
  moreover have "batch_sizes ?b TRAIN \<le> 0"
    by (simp add: batch_sizes_def)
  ultimately have plain: "Batcher_batchify ?b (of_list ?xs) ?none TRAIN = Stop"
    using b(2) by blast
  from nonpositive_batch_size_no_batches [of "- 2" 16 16 "Some (- 3)" "of_list ?xs" ?none
      identity_rnd ?xs "None :: ((string, int) row \<Rightarrow> int) option"]
  obtain p where p: "PoolingBatcher_init (- 2) 16 16 (Some (- 3)) = Inr p"
    "\<forall>stage. batch_sizes p stage \<le> 0 \<and> valid_rnd identity_rnd \<longrightarrow>
       PoolingBatcher_batchify p identity_rnd (of_list ?xs)
         (total_key (None :: ((string, int) row \<Rightarrow> int) option)) stage = Stop"
    by blast
  from p(1) have "p = ?p"
    by (simp add: PoolingBatcher_init_def)
  moreover have "batch_sizes ?p TRAIN \<le> 0 \<and> valid_rnd identity_rnd"
    by (simp add: batch_sizes_def valid_identity_rnd)
  ultimately have "PoolingBatcher_batchify ?p identity_rnd (of_list ?xs)
         (total_key (None :: ((string, int) row \<Rightarrow> int) option)) TRAIN = Stop"
    using p(2) by blast
  then have "PoolingBatcher_batchify ?p identity_rnd (of_list ?xs) ?none TRAIN = Stop"
    by (simp add: total_key_def)
  with plain show ?thesis
    by (rule conjI)
qed

text \<open>
  Claim C7 as it is written fails: the constructors return an object for the batch
  size 0 and for a negative batch size, and report nothing.
\<close>

theorem nonpositive_batch_size_accepted_counterexample:
  "Batcher_init 0 16 16
     = Inr \<lparr>train_batch_size = 0, eval_batch_size = 16, test_batch_size = 16\<rparr> \<and>
   PoolingBatcher_init (- 2) 16 16 (Some 10000)
     = Inr \<lparr>train_batch_size = - 2, eval_batch_size = 16, test_batch_size = 16,
            pool_num_batches = 10000\<rparr>"
  by (simp add: Batcher_init_def PoolingBatcher_init_def)

section \<open>Deriving a cursor\<close>

lemma sort_key_arg_of_update [simp]:
  "sort_key_arg_of (self\<lparr>reads := r\<rparr>) = sort_key_arg_of self"
  "sort_key_arg_of (self\<lparr>numberized_cache := c\<rparr>) = sort_key_arg_of self"
  "sort_key_arg_of (self\<lparr>batch := b\<rparr>) = sort_key_arg_of self"
  "sort_key_arg_of (self\<lparr>num_batches := n\<rparr>) = sort_key_arg_of self"
  by (simp_all add: sort_key_arg_of_def split: option.splits)

lemma make_cursor_update [simp]:
  "make_cursor rnd (self\<lparr>reads := r\<rparr>) = make_cursor rnd self"
  "make_cursor rnd (self\<lparr>numberized_cache := c\<rparr>) = make_cursor rnd self"
  "make_cursor rnd (self\<lparr>batch := b\<rparr>) = make_cursor rnd self"
  "make_cursor rnd (self\<lparr>num_batches := n\<rparr>) = make_cursor rnd self"
  by (simp_all add: make_cursor_def [abs_def])

lemma get_batches_live:
  "batch self stage = Some cursor \<Longrightarrow> get_batches rng self stage src = (Inr cursor, self)"
  by (simp add: get_batches_def)

lemma get_batches_raise:
  assumes "batch self stage = None" and "in_memory self"
    and "not_rows (numberized_cache self stage)"
    and "to_list (numberize_rows (tensorizers self) (stage_rows src stage (reads self))) = Inl e"
  shows "get_batches rng self stage src = (Inl e, self\<lparr>reads := Suc (reads self)\<rparr>)"
  using assms by (simp add: get_batches_def Let_def)





lemma to_list_of_list [simp]: "to_list (of_list xs) = Inr xs"
  by (induction xs) simp_all

lemma numberize_rows_append_raise:
  assumes "to_list (numberize_rows tzs pre) = Inr done"
    and "numberize_row tzs raw Map.empty = Inl e"
  shows "to_list (numberize_rows tzs (pre @ raw # post)) = Inl e"
  using assms by (induction pre arbitrary: "done") (auto split: sum.splits)

lemma numberize_row_raise:
  assumes "\<forall>(name, t)\<in>set before. \<exists>v. numberize t raw = Inr v"
    and "numberize t raw = Inl e"
  shows "numberize_row (before @ (name, t) # after) raw acc = Inl e"
  using assms by (induction before arbitrary: acc) auto

lemma get_batches_error_state:
  assumes "get_batches rng self stage src = (Inl e, self')"
  shows "self' = self\<lparr>reads := Suc (reads self)\<rparr> \<and> batch self stage = None \<and> in_memory self \<and>
         not_rows (numberized_cache self stage) \<and>
         to_list (numberize_rows (tensorizers self) (stage_rows src stage (reads self))) = Inl e"
  using assms
  by (auto simp: get_batches_def Let_def split: option.splits if_splits sum.splits prod.splits)

section \<open>A converter that raises\<close>

lemma batches_error:
  assumes "get_batches rng (self\<lparr>num_batches := 0\<rparr>) stage src = (Inl e, self')"
  shows "batches rng self stage (Some src) = Some ([], Some e, self')"
  unfolding batches_def Let_def option.case
  by (subst batches_while.simps) (simp add: assms)

text \<open>
  Claim C9.  In-memory caching is on, the phase has no live cursor and no rows in the
  cache, so that the derivation numberizes the rows of the phase.  The rows before
  \<open>raw\<close> numberize, and of the field converters the one named \<open>name\<close> is the first to
  raise on \<open>raw\<close>, with the error \<open>e\<close>.  Then \<^verbatim>\<open>_get_batches\<close>, and with it the
  invocation of \<^verbatim>\<open>batches\<close>, ends by the error \<open>e\<close> without a batch; the cache is
  what it was and holds no row of the phase; no cursor is stored.  More generally,
  whenever \<^verbatim>\<open>_get_batches\<close> ends by an error, from whatever state, the cache is what
  it was and holds no row of the phase.
\<close>

theorem cache_all_or_nothing:
  fixes self other :: "('raw, 'v, 'k::linorder, 't) Data"
  assumes "in_memory self" and "batch self stage = None"
    and "not_rows (numberized_cache self stage)"
    and "stage_rows src stage (reads self) = pre @ raw # post"
    and "to_list (numberize_rows (tensorizers self) pre) = Inr converted"
    and "tensorizers self = before @ (name, t) # after"
    and "\<forall>(n, t')\<in>set before. \<exists>v. numberize t' raw = Inr v"
    and "numberize t raw = Inl e"
  shows "(\<exists>self'. get_batches rng self stage src = (Inl e, self') \<and>
            numberized_cache self' = numberized_cache self \<and>
            not_rows (numberized_cache self' stage) \<and>
            batch self' = batch self) \<and>
         (\<exists>self'. batches rng self stage (Some src) = Some ([], Some e, self') \<and>
            numberized_cache self' = numberized_cache self \<and>
            not_rows (numberized_cache self' stage) \<and>
            batch self' = batch self) \<and>
         (\<forall>e' other'. get_batches rng other stage' src' = (Inl e', other') \<longrightarrow>
            numberized_cache other' = numberized_cache other \<and>
            not_rows (numberized_cache other' stage') \<and>
            batch other' = batch other)"
proof (intro conjI allI impI)
  from assms(6-8) have "numberize_row (tensorizers self) raw Map.empty = Inl e"
    by (simp only: numberize_row_raise)
  with assms(4,5)
  have raised: "to_list (numberize_rows (tensorizers self) (stage_rows src stage (reads self))) = Inl e"
    by (simp only: numberize_rows_append_raise)
  with assms(1-3)
  have one: "get_batches rng self stage src = (Inl e, self\<lparr>reads := Suc (reads self)\<rparr>)"
    by (intro get_batches_raise)
  with assms(3) show "\<exists>self'. get_batches rng self stage src = (Inl e, self') \<and>
            numberized_cache self' = numberized_cache self \<and>
            not_rows (numberized_cache self' stage) \<and>
            batch self' = batch self"
    by simp
  from assms(1-3) raised
  have "get_batches rng (self\<lparr>num_batches := 0\<rparr>) stage src
        = (Inl e, self\<lparr>num_batches := 0, reads := Suc (reads self)\<rparr>)"
    by (subst get_batches_raise) simp_all
  then have "batches rng self stage (Some src)
             = Some ([], Some e, self\<lparr>num_batches := 0, reads := Suc (reads self)\<rparr>)"
    by (rule batches_error)
  with assms(3) show "\<exists>self'. batches rng self stage (Some src) = Some ([], Some e, self') \<and>
            numberized_cache self' = numberized_cache self \<and>
            not_rows (numberized_cache self' stage) \<and>
            batch self' = batch self"
    by simp
next
  fix e' other'
  assume "get_batches rng other stage' src' = (Inl e', other')"
  from get_batches_error_state [OF this]
  show "numberized_cache other' = numberized_cache other"
    "not_rows (numberized_cache other' stage')"
    "batch other' = batch other"
    by simp_all
qed

text \<open>
  One field converter, which raises on negative numbers, and an evaluation stream
  whose second row is negative at the read number 1.
\<close>

theorem cache_all_or_nothing_witness:
  "map_option (\<lambda>(ys, err, s). (ys, err, numberized_cache s EVAL, batch s EVAL))
     (batches (\<lambda>d. identity_rnd)
        ((Data_init example_source example_tensorizers None None None True)\<lparr>reads := 1\<rparr>)
        EVAL (Some example_source))
   = Some ([], Some (TensorizerError 7), None, None)"
proof -
  let ?self = "(Data_init example_source example_tensorizers None None None True)\<lparr>reads := 1\<rparr>"
  let ?t = "\<lparr>is_metric = False,
              numberize = (\<lambda>raw. if raw < 0 then Inl (TensorizerError 7) else Inr (raw :: int)),
              sort_key_of = (\<lambda>v. v :: int),
              tensorize = (\<lambda>arg. Inr (case arg of Column c \<Rightarrow> length c | Whole_batch b \<Rightarrow> (0 :: nat)))\<rparr>"
  have "in_memory ?self" "batch ?self EVAL = None" "not_rows (numberized_cache ?self EVAL)"
    "stage_rows example_source EVAL (reads ?self) = [5] @ (- 1) # []"
    "to_list (numberize_rows (tensorizers ?self) [5]) = Inr [[''x'' \<mapsto> 5]]"
    "tensorizers ?self = [] @ (''x'', ?t) # []"
    "\<forall>(n, t')\<in>set []. \<exists>v. numberize t' (- 1 :: int) = Inr (v :: int)"
    "numberize ?t (- 1) = Inl (TensorizerError 7)"
    by (simp_all add: Data_init_def not_rows_def stage_rows_def example_source_def
        example_tensorizers_def)
  from cache_all_or_nothing [OF this, of "\<lambda>d. identity_rnd"]
  obtain self' where "batches (\<lambda>d. identity_rnd) ?self EVAL (Some example_source)
      = Some ([], Some (TensorizerError 7), self')"
    "numberized_cache self' = numberized_cache ?self" "batch self' = batch ?self"
    by blast
  then show ?thesis
    by (simp add: Data_init_def)
qed

section \<open>A sort key that is no tensorizer\<close>









end
